theory Spec2Isabelle
  imports Complex_Main "HOL-Library.Word" "HOL-Library.Multiset"
begin

unbundle bit_operations_syntax

section \<open>The MinHash engine of minhash.go\<close>

text \<open>
  The engine of \<^verbatim>\<open>minhash.go\<close> owns a slice of unsigned 64-bit integers and a hash
  function. A Go slice is a view of a backing array that other slice values may share,
  and \<^verbatim>\<open>Signature\<close> hands the engine's own slice to the caller, so the model keeps the
  backing arrays in an explicit store and a slice is the address of its array. Every
  slice the package makes covers its whole array, hence the length of a slice is the
  length of the array it points to.

  Conventions of the model:
  \<^item> \<^verbatim>\<open>uint64\<close> is \<open>64 word\<close>: \<open>+\<close> and \<open>*\<close> wrap modulo \<open>2 ^ 64\<close>, \<open><\<close> is the
    unsigned order;
  \<^item> a run-time panic and the error value \<^verbatim>\<open>ErrSigSizeMismatch\<close> are values of the
    type \<open>error\<close>; an operation that can panic returns \<open>error + 'a\<close>, and \<open>Inl\<close> is the
    panic: it ends the operation, and the store it leaves behind is not part of the
    result;
  \<^item> a \<^verbatim>\<open>*Minhash\<close> is never \<^verbatim>\<open>nil\<close> and its hash function is a total, deterministic
    function (the fields of the struct are never assigned after construction, so the
    struct itself is a value);
  \<^item> \<^verbatim>\<open>make\<close> panics on a negative length and on a length above the limit of the
    runtime, \<open>maxSliceLen\<close>; up to this limit memory is unbounded (running out of
    memory is a fatal error of the process, not a panic, and is not modelled);
  \<^item> a \<^verbatim>\<open>float64\<close> is \<open>NaN\<close>, an infinity, or \<open>Finite r\<close>, which stands for the
    double nearest to the real \<open>r\<close>; rounding and signed zeros are not modelled.
\<close>

subsection \<open>Values, errors and the store\<close>

type_synonym u64 = "64 word"
type_synonym byte = "8 word"
type_synonym addr = nat

text \<open>\<^verbatim>\<open>type HashFunc func([]byte) (uint64, uint64)\<close>\<close>

type_synonym HashFunc = "byte list \<Rightarrow> u64 \<times> u64"

text \<open>
  \<^verbatim>\<open>ErrSigSizeMismatch\<close> is the package's error value. The two panics are the run-time
  errors of Go that the package's statements can raise: an index expression out of range
  (the index and the length, as in Go's message) and \<^verbatim>\<open>make\<close> with a length out of
  range (\<^verbatim>\<open>makeslice: len out of range\<close>).
\<close>

datatype error =
    ErrSigSizeMismatch
  | PanicIndexOutOfRange nat nat
  | PanicMakeSliceLen

text \<open>\<^verbatim>\<open>type Minhash struct { sig []uint64; hashFunc HashFunc }\<close>\<close>

record Minhash =
  sig :: addr
  hashFunc :: HashFunc

text \<open>
  The store: the backing arrays by address, and the log of the arguments the hash
  functions have been called with, oldest first. The log is what makes a call of the
  hash function an effect of the model.
\<close>

record world =
  heap :: "u64 list list"
  hashCalls :: "byte list list"

definition slots :: "world \<Rightarrow> addr \<Rightarrow> u64 list" where
  "slots w a = heap w ! a"

text \<open>An engine is allocated in a store when its slice points to an array of the store.\<close>

definition allocated :: "world \<Rightarrow> Minhash \<Rightarrow> bool" where
  "allocated w m = (sig m < length (heap w))"

text \<open>\<^verbatim>\<open>len(s)\<close>\<close>

definition slice_len :: "world \<Rightarrow> addr \<Rightarrow> nat" where
  "slice_len w a = length (slots w a)"

text \<open>The index expression \<^verbatim>\<open>s[i]\<close> as a value: Go checks the index.\<close>

definition index_get :: "world \<Rightarrow> addr \<Rightarrow> nat \<Rightarrow> error + u64" where
  "index_get w a i =
     (if i < slice_len w a then Inr (slots w a ! i)
      else Inl (PanicIndexOutOfRange i (slice_len w a)))"

text \<open>The assignment \<^verbatim>\<open>s[i] = v\<close>: it writes the backing array.\<close>

definition index_set :: "addr \<Rightarrow> nat \<Rightarrow> u64 \<Rightarrow> world \<Rightarrow> error + world" where
  "index_set a i v w =
     (if i < slice_len w a then Inr (w\<lparr>heap := (heap w)[a := (slots w a)[i := v]]\<rparr>)
      else Inl (PanicIndexOutOfRange i (slice_len w a)))"

text \<open>
  The greatest length \<^verbatim>\<open>make([]uint64, n)\<close> accepts. Go's runtime refuses a slice whose
  size in bytes exceeds its allocation limit, which is \<open>2 ^ 48\<close> bytes on the 64-bit
  platforms with a 48-bit address space (linux/amd64 among them); a \<^verbatim>\<open>uint64\<close> takes
  eight bytes, so the limit is \<open>2 ^ 45\<close> elements.
\<close>

definition maxSliceLen :: int where
  "maxSliceLen = 2 ^ 45"

text \<open>
  \<^verbatim>\<open>make([]uint64, n)\<close>: a new array of zeros at a fresh address, or the panic
  \<^verbatim>\<open>makeslice: len out of range\<close> when \<open>n\<close> is negative or above the limit.
\<close>

definition make_slice :: "int \<Rightarrow> world \<Rightarrow> error + (addr \<times> world)" where
  "make_slice n w =
     (if n < 0 \<or> maxSliceLen < n then Inl PanicMakeSliceLen
      else Inr (length (heap w), w\<lparr>heap := heap w @ [replicate (nat n) 0]\<rparr>))"

text \<open>
  \<^verbatim>\<open>copy(dst, src)\<close>: the first \<open>min (len dst) (len src)\<close> elements of \<open>src\<close> overwrite
  those of \<open>dst\<close>.
\<close>

definition copy_slice :: "addr \<Rightarrow> addr \<Rightarrow> world \<Rightarrow> world" where
  "copy_slice dst src w =
     w\<lparr>heap := (heap w)[dst :=
        take (min (slice_len w dst) (slice_len w src)) (slots w src)
          @ drop (min (slice_len w dst) (slice_len w src)) (slots w dst)]\<rparr>"

text \<open>
  \<^verbatim>\<open>for i := range s { body }\<close>: the length is read once, the body runs for
  \<open>i = 0, ..., n - 1\<close> in this order and a panic in the body ends the loop.
\<close>

primrec for_each :: "nat list \<Rightarrow> (nat \<Rightarrow> 's \<Rightarrow> error + 's) \<Rightarrow> 's \<Rightarrow> error + 's" where
  "for_each [] body s = Inr s"
| "for_each (i # is) body s =
     (case body i s of Inl e \<Rightarrow> Inl e | Inr s' \<Rightarrow> for_each is body s')"

definition for_range :: "nat \<Rightarrow> (nat \<Rightarrow> 's \<Rightarrow> error + 's) \<Rightarrow> 's \<Rightarrow> error + 's" where
  "for_range n body s = for_each [0..<n] body s"

subsection \<open>float64, as far as Similarity needs it\<close>

datatype float64 = NaN | PosInf | NegInf | Finite real

text \<open>\<^verbatim>\<open>float64(n)\<close> of a non-negative \<^verbatim>\<open>int\<close>\<close>

definition float64_of_nat :: "nat \<Rightarrow> float64" where
  "float64_of_nat n = Finite (real n)"

text \<open>
  IEEE 754 division: \<open>0 / 0\<close> and \<open>\<infinity> / \<infinity>\<close> are \<open>NaN\<close>, a non-zero finite value
  divided by zero is an infinity, and Go raises no panic on a floating-point division.
\<close>

fun float64_div :: "float64 \<Rightarrow> float64 \<Rightarrow> float64" where
  "float64_div (Finite x) (Finite y) =
     (if y = 0 then (if x = 0 then NaN else if 0 < x then PosInf else NegInf)
      else Finite (x / y))"
| "float64_div (Finite x) PosInf = Finite 0"
| "float64_div (Finite x) NegInf = Finite 0"
| "float64_div PosInf (Finite y) = (if 0 \<le> y then PosInf else NegInf)"
| "float64_div NegInf (Finite y) = (if 0 \<le> y then NegInf else PosInf)"
| "float64_div _ _ = NaN"

subsection \<open>The operations\<close>

text \<open>
  \<^verbatim>\<open>NewMinhash\<close> with the size \<open>n\<close>: \<^verbatim>\<open>sig := make([]uint64, size)\<close>, then
  \<^verbatim>\<open>for i := range sig { sig[i] = ^uint64(0) }\<close>.
\<close>

definition NewMinhash_body :: "addr \<Rightarrow> nat \<Rightarrow> world \<Rightarrow> error + world" where
  "NewMinhash_body a i w = index_set a i (NOT 0) w"

definition NewMinhash :: "HashFunc \<Rightarrow> int \<Rightarrow> world \<Rightarrow> error + (Minhash \<times> world)" where
  "NewMinhash hf n w =
     (case make_slice n w of
        Inl e \<Rightarrow> Inl e
      | Inr (a, w1) \<Rightarrow>
          (case for_range (slice_len w1 a) (NewMinhash_body a) w1 of
             Inl e \<Rightarrow> Inl e
           | Inr w2 \<Rightarrow> Inr (\<lparr>sig = a, hashFunc = hf\<rparr>, w2)))"

text \<open>
  \<^verbatim>\<open>NewMinhashFromSigs\<close>: \<^verbatim>\<open>sig := make([]uint64, len(existingSig))\<close>, then
  \<^verbatim>\<open>copy(sig, existingSig)\<close>. The length of a slice that exists is neither negative nor
  above the limit of \<^verbatim>\<open>make\<close>.
\<close>

definition NewMinhashFromSigs :: "HashFunc \<Rightarrow> addr \<Rightarrow> world \<Rightarrow> error + (Minhash \<times> world)" where
  "NewMinhashFromSigs hf existingSig w =
     (case make_slice (int (slice_len w existingSig)) w of
        Inl e \<Rightarrow> Inl e
      | Inr (a, w1) \<Rightarrow> Inr (\<lparr>sig = a, hashFunc = hf\<rparr>, copy_slice a existingSig w1))"

text \<open>\<^verbatim>\<open>v1, v2 := m.hashFunc(b)\<close>: the call is logged.\<close>

definition call_hashFunc :: "Minhash \<Rightarrow> byte list \<Rightarrow> world \<Rightarrow> (u64 \<times> u64) \<times> world" where
  "call_hashFunc m b w = (hashFunc m b, w\<lparr>hashCalls := hashCalls w @ [b]\<rparr>)"

text \<open>
  \<^verbatim>\<open>Push\<close>: the body of \<^verbatim>\<open>for i, hashVal := range m.sig\<close>. The range clause reads
  \<open>hashVal\<close> from the array at the start of each iteration; \<^verbatim>\<open>uint64(i)\<close> is \<open>of_nat i\<close>.
\<close>

definition Push_body :: "Minhash \<Rightarrow> u64 \<Rightarrow> u64 \<Rightarrow> nat \<Rightarrow> world \<Rightarrow> error + world" where
  "Push_body m v1 v2 i w =
     (let hashVal = slots w (sig m) ! i;
          newHashVal = v1 + of_nat i * v2
      in if newHashVal < hashVal then index_set (sig m) i newHashVal w else Inr w)"

definition Push :: "Minhash \<Rightarrow> byte list \<Rightarrow> world \<Rightarrow> error + world" where
  "Push m b w =
     (case call_hashFunc m b w of
        ((v1, v2), w1) \<Rightarrow> for_range (slice_len w1 (sig m)) (Push_body m v1 v2) w1)"

text \<open>\<^verbatim>\<open>PushAll\<close>: \<^verbatim>\<open>for _, b := range bb { m.Push(b) }\<close>\<close>

primrec PushAll :: "Minhash \<Rightarrow> byte list list \<Rightarrow> world \<Rightarrow> error + world" where
  "PushAll m [] w = Inr w"
| "PushAll m (b # bb) w =
     (case Push m b w of Inl e \<Rightarrow> Inl e | Inr w' \<Rightarrow> PushAll m bb w')"

text \<open>
  \<^verbatim>\<open>[]byte(r)\<close>: a Go string is a sequence of bytes and the conversion copies them. The
  characters of a HOL string are bytes too.
\<close>

definition bytes_of_string :: "string \<Rightarrow> byte list" where
  "bytes_of_string r = map of_char r"

text \<open>\<^verbatim>\<open>PushStrings\<close>: \<^verbatim>\<open>for _, r := range ss { m.Push([]byte(r)) }\<close>\<close>

primrec PushStrings :: "Minhash \<Rightarrow> string list \<Rightarrow> world \<Rightarrow> error + world" where
  "PushStrings m [] w = Inr w"
| "PushStrings m (r # ss) w =
     (case Push m (bytes_of_string r) w of Inl e \<Rightarrow> Inl e | Inr w' \<Rightarrow> PushStrings m ss w')"

text \<open>
  \<^verbatim>\<open>Merge\<close>: the body of \<^verbatim>\<open>for i, v := range other.sig\<close>. The index expression
  \<^verbatim>\<open>m.sig[i]\<close> is checked against the receiver's length.
\<close>

definition Merge_body :: "Minhash \<Rightarrow> Minhash \<Rightarrow> nat \<Rightarrow> world \<Rightarrow> error + world" where
  "Merge_body m other i w =
     (let v = slots w (sig other) ! i
      in case index_get w (sig m) i of
           Inl e \<Rightarrow> Inl e
         | Inr x \<Rightarrow> if v < x then index_set (sig m) i v w else Inr w)"

definition Merge :: "Minhash \<Rightarrow> Minhash \<Rightarrow> world \<Rightarrow> error + world" where
  "Merge m other w = for_range (slice_len w (sig other)) (Merge_body m other) w"

text \<open>\<^verbatim>\<open>Signature\<close>: \<^verbatim>\<open>return m.sig\<close>, the slice itself.\<close>

definition Signature :: "Minhash \<Rightarrow> world \<Rightarrow> addr \<times> world" where
  "Signature m w = (sig m, w)"

text \<open>
  \<^verbatim>\<open>Similarity\<close>: the body of \<^verbatim>\<open>for i := range m.sig\<close> over the local \<open>intersect\<close>, and
  the function, which returns the pair \<^verbatim>\<open>(float64, error)\<close> (\<open>None\<close> is \<^verbatim>\<open>nil\<close>).
\<close>

definition Similarity_body :: "Minhash \<Rightarrow> Minhash \<Rightarrow> world \<Rightarrow> nat \<Rightarrow> nat \<Rightarrow> error + nat" where
  "Similarity_body m other w i intersect =
     (case index_get w (sig m) i of
        Inl e \<Rightarrow> Inl e
      | Inr x \<Rightarrow>
          (case index_get w (sig other) i of
             Inl e \<Rightarrow> Inl e
           | Inr y \<Rightarrow> Inr (if x = y then intersect + 1 else intersect)))"

definition Similarity ::
  "Minhash \<Rightarrow> Minhash \<Rightarrow> world \<Rightarrow> error + ((float64 \<times> error option) \<times> world)" where
  "Similarity m other w =
     (if slice_len w (sig m) \<noteq> slice_len w (sig other)
      then Inr ((float64_of_nat 0, Some ErrSigSizeMismatch), w)
      else
        (case for_range (slice_len w (sig m)) (Similarity_body m other w) 0 of
           Inl e \<Rightarrow> Inl e
         | Inr intersect \<Rightarrow>
             Inr ((float64_div (float64_of_nat intersect)
                     (float64_of_nat (slice_len w (sig m))), None), w)))"

subsection \<open>Sequential pushes, in the words of the specification\<close>

text \<open>
  The specification compares the batch operations with ``sequentially calling push on each
  element in the same order''. This definition follows these words, not the code: the
  pushes are folded over the list, from the left, and a panic ends the sequence.
\<close>

definition push_sequentially :: "Minhash \<Rightarrow> byte list list \<Rightarrow> world \<Rightarrow> error + world" where
  "push_sequentially m bs w =
     fold (\<lambda>b r. case r of Inl e \<Rightarrow> Inl e | Inr w' \<Rightarrow> Push m b w') bs (Inr w)"

subsection \<open>A hash function for the examples\<close>

text \<open>
  The hash functions of the tests (xxh3, murmur3) are outside the package. The examples of
  this theory use a hash function that returns the length of the element and the
  constant 3.
\<close>

definition example_hash :: HashFunc where
  "example_hash b = (of_nat (length b), 3)"

subsection \<open>The loop\<close>

lemma for_each_append:
  "for_each (xs @ ys) body s =
     (case for_each xs body s of Inl e \<Rightarrow> Inl e | Inr s' \<Rightarrow> for_each ys body s')"
  by (induction xs arbitrary: s) (auto split: sum.splits)

lemma for_range_0: "for_range 0 body s = Inr s"
  by (simp add: for_range_def)

lemma for_range_Suc:
  "for_range (Suc k) body s =
     (case for_range k body s of Inl e \<Rightarrow> Inl e | Inr s' \<Rightarrow> body k s')"
  by (simp add: for_range_def for_each_append split: sum.splits)

lemma pointwise_loop:
  fixes g :: "nat \<Rightarrow> u64 \<Rightarrow> u64"
  assumes body: "\<And>i zs. i < k \<Longrightarrow> length zs = length (heap w ! a) \<Longrightarrow>
      (\<And>j. i \<le> j \<Longrightarrow> j < length zs \<Longrightarrow> zs ! j = heap w ! a ! j) \<Longrightarrow>
      body i (w\<lparr>heap := (heap w)[a := zs]\<rparr>) =
        Inr (w\<lparr>heap := (heap w)[a := zs[i := g i (heap w ! a ! i)]]\<rparr>)"
    and k: "k \<le> length (heap w ! a)"
  shows "for_range k body w =
    Inr (w\<lparr>heap := (heap w)[a :=
      map (\<lambda>i. if i < k then g i (heap w ! a ! i) else heap w ! a ! i)
        [0..<length (heap w ! a)]]\<rparr>)"
  using body k
proof (induction k)
  case 0
  have "map (\<lambda>i. heap w ! a ! i) [0..<length (heap w ! a)] = heap w ! a"
    by (rule map_nth)
  then show ?case by (simp add: for_range_0)
next
  case (Suc k)
  let ?xs = "heap w ! a"
  let ?f = "\<lambda>k i. if i < k then g i (?xs ! i) else ?xs ! i"
  let ?zs = "\<lambda>k. map (?f k) [0..<length ?xs]"
  have IH: "for_range k body w = Inr (w\<lparr>heap := (heap w)[a := ?zs k]\<rparr>)"
    using Suc.prems by (intro Suc.IH) simp_all
  have step: "body k (w\<lparr>heap := (heap w)[a := ?zs k]\<rparr>) =
      Inr (w\<lparr>heap := (heap w)[a := (?zs k)[k := g k (?xs ! k)]]\<rparr>)"
    by (rule Suc.prems(1)) simp_all
  have upd: "(?zs k)[k := g k (?xs ! k)] = ?zs (Suc k)"
    using Suc.prems(2) by (auto intro!: nth_equalityI simp: nth_list_update less_Suc_eq)
  show ?case
    by (simp only: for_range_Suc IH sum.case step upd)
qed

subsection \<open>Push\<close>

lemma heap_update_same:
  "a < length (heap w) \<Longrightarrow> heap (w\<lparr>heap := (heap w)[a := zs]\<rparr>) ! a = zs"
  by simp

lemma index_set_at:
  assumes "a < length (heap w)" and "i < length zs"
  shows "index_set a i v (w\<lparr>heap := (heap w)[a := zs]\<rparr>) =
    Inr (w\<lparr>heap := (heap w)[a := zs[i := v]]\<rparr>)"
  using assms by (simp add: index_set_def slice_len_def slots_def)

lemma index_get_at:
  assumes "a < length (heap w)" and "i < length zs"
  shows "index_get (w\<lparr>heap := (heap w)[a := zs]\<rparr>) a i = Inr (zs ! i)"
  using assms by (simp add: index_get_def slice_len_def slots_def)

lemma Push_body_at:
  assumes "sig m < length (heap w)" and "i < length zs"
  shows "Push_body m v1 v2 i (w\<lparr>heap := (heap w)[sig m := zs]\<rparr>) =
    Inr (w\<lparr>heap := (heap w)[sig m := zs[i := min (zs ! i) (v1 + of_nat i * v2)]]\<rparr>)"
proof (cases "v1 + of_nat i * v2 < zs ! i")
  case True
  then have "min (zs ! i) (v1 + of_nat i * v2) = v1 + of_nat i * v2"
    by (auto simp: min_def)
  with True assms show ?thesis
    by (simp add: Push_body_def slots_def index_set_at)
next
  case False
  then have "min (zs ! i) (v1 + of_nat i * v2) = zs ! i"
    by (auto simp: min_def)
  with False assms show ?thesis
    by (simp add: Push_body_def slots_def)
qed

lemma Push_loop:
  assumes "sig m < length (heap w)"
  shows "for_range (length (heap w ! sig m)) (Push_body m v1 v2) w =
    Inr (w\<lparr>heap := (heap w)[sig m :=
      map (\<lambda>i. min (heap w ! sig m ! i) (v1 + of_nat i * v2)) [0..<length (heap w ! sig m)]]\<rparr>)"
proof -
  have "for_range (length (heap w ! sig m)) (Push_body m v1 v2) w =
    Inr (w\<lparr>heap := (heap w)[sig m :=
      map (\<lambda>i. if i < length (heap w ! sig m)
                then (\<lambda>i x. min x (v1 + of_nat i * v2)) i (heap w ! sig m ! i)
                else heap w ! sig m ! i) [0..<length (heap w ! sig m)]]\<rparr>)"
  proof (rule pointwise_loop)
    fix i zs
    assume i: "i < length (heap w ! sig m)" and len: "length zs = length (heap w ! sig m)"
      and same: "\<And>j. i \<le> j \<Longrightarrow> j < length zs \<Longrightarrow> zs ! j = heap w ! sig m ! j"
    from i len same [of i] have "zs ! i = heap w ! sig m ! i" by simp
    with i len assms show "Push_body m v1 v2 i (w\<lparr>heap := (heap w)[sig m := zs]\<rparr>) =
        Inr (w\<lparr>heap := (heap w)[sig m := zs[i := min (heap w ! sig m ! i) (v1 + of_nat i * v2)]]\<rparr>)"
      by (simp add: Push_body_at)
  qed simp
  moreover have "map (\<lambda>i. if i < length (heap w ! sig m)
                then min (heap w ! sig m ! i) (v1 + of_nat i * v2)
                else heap w ! sig m ! i) [0..<length (heap w ! sig m)] =
      map (\<lambda>i. min (heap w ! sig m ! i) (v1 + of_nat i * v2)) [0..<length (heap w ! sig m)]"
    by simp
  ultimately show ?thesis by simp
qed

lemma Push_eq:
  assumes "allocated w m"
  shows "Push m b w =
    Inr (w\<lparr>heap := (heap w)[sig m :=
           map (\<lambda>i. min (slots w (sig m) ! i) (fst (hashFunc m b) + of_nat i * snd (hashFunc m b)))
             [0..<length (slots w (sig m))]],
         hashCalls := hashCalls w @ [b]\<rparr>)"
proof -
  let ?w1 = "w\<lparr>hashCalls := hashCalls w @ [b]\<rparr>"
  obtain v1 v2 where h: "hashFunc m b = (v1, v2)"
    by (cases "hashFunc m b")
  have "sig m < length (heap ?w1)" using assms by (simp add: allocated_def)
  from Push_loop [OF this, of v1 v2]
  show ?thesis
    by (simp add: Push_def call_hashFunc_def slice_len_def slots_def h)
qed

subsection \<open>Merge\<close>

lemma for_range_split:
  assumes "k \<le> n"
  shows "for_range n body s =
    (case for_range k body s of Inl e \<Rightarrow> Inl e | Inr s' \<Rightarrow> for_each [k..<n] body s')"
proof -
  from assms have "[0..<n] = [0..<k] @ [k..<n]"
    by (metis le_add_diff_inverse upt_add_eq_append zero_le)
  then show ?thesis by (simp add: for_range_def for_each_append)
qed

lemma Merge_body_at:
  assumes "sig m < length (heap w)" and "i < length zs"
  shows "Merge_body m other i (w\<lparr>heap := (heap w)[sig m := zs]\<rparr>) =
    Inr (w\<lparr>heap := (heap w)[sig m :=
      zs[i := min (zs ! i) ((heap w)[sig m := zs] ! sig other ! i)]]\<rparr>)"
proof (cases "(heap w)[sig m := zs] ! sig other ! i < zs ! i")
  case True
  then have "min (zs ! i) ((heap w)[sig m := zs] ! sig other ! i) = (heap w)[sig m := zs] ! sig other ! i"
    by (auto simp: min_def)
  with True assms show ?thesis
    by (simp add: Merge_body_def slots_def index_get_at index_set_at)
next
  case False
  then have "min (zs ! i) ((heap w)[sig m := zs] ! sig other ! i) = zs ! i"
    by (auto simp: min_def)
  with False assms show ?thesis
    by (simp add: Merge_body_def slots_def index_get_at)
qed

lemma Merge_loop:
  assumes m: "sig m < length (heap w)"
    and k: "k \<le> length (heap w ! sig m)"
  shows "for_range k (Merge_body m other) w =
    Inr (w\<lparr>heap := (heap w)[sig m :=
      map (\<lambda>i. if i < k then min (heap w ! sig m ! i) (heap w ! sig other ! i)
                else heap w ! sig m ! i) [0..<length (heap w ! sig m)]]\<rparr>)"
proof (rule pointwise_loop [where g = "\<lambda>i x. min x (heap w ! sig other ! i)"])
  fix i zs
  assume i: "i < k" and len: "length zs = length (heap w ! sig m)"
    and same: "\<And>j. i \<le> j \<Longrightarrow> j < length zs \<Longrightarrow> zs ! j = heap w ! sig m ! j"
  from i k len have iz: "i < length zs" by simp
  with same [of i] have zi: "zs ! i = heap w ! sig m ! i" by simp
  have "(heap w)[sig m := zs] ! sig other ! i = heap w ! sig other ! i"
  proof (cases "sig other = sig m")
    case True
    with m zi show ?thesis by simp
  next
    case False
    then show ?thesis by simp
  qed
  with Merge_body_at [OF m iz, of other] zi
  show "Merge_body m other i (w\<lparr>heap := (heap w)[sig m := zs]\<rparr>) =
      Inr (w\<lparr>heap := (heap w)[sig m := zs[i := min (heap w ! sig m ! i) (heap w ! sig other ! i)]]\<rparr>)"
    by simp
qed (rule k)

lemma Merge_eq:
  assumes "allocated w m"
    and "length (slots w (sig other)) \<le> length (slots w (sig m))"
  shows "Merge m other w =
    Inr (w\<lparr>heap := (heap w)[sig m :=
      map (\<lambda>i. if i < length (slots w (sig other))
                then min (slots w (sig m) ! i) (slots w (sig other) ! i)
                else slots w (sig m) ! i) [0..<length (slots w (sig m))]]\<rparr>)"
  using assms Merge_loop [of m w "length (heap w ! sig other)" other]
  unfolding Merge_def allocated_def slice_len_def slots_def by simp

lemma Merge_panics:
  assumes "allocated w m"
    and "length (slots w (sig m)) < length (slots w (sig other))"
  shows "Merge m other w =
    Inl (PanicIndexOutOfRange (length (slots w (sig m))) (length (slots w (sig m))))"
proof -
  let ?n = "length (heap w ! sig m)"
  let ?w = "w\<lparr>heap := (heap w)[sig m :=
      map (\<lambda>i. if i < ?n then min (heap w ! sig m ! i) (heap w ! sig other ! i)
                else heap w ! sig m ! i) [0..<?n]]\<rparr>"
  from assms have m: "sig m < length (heap w)" and lt: "?n < length (heap w ! sig other)"
    by (simp_all add: allocated_def slots_def)
  have loop: "for_range ?n (Merge_body m other) w = Inr ?w"
    by (rule Merge_loop [OF m]) simp
  have "Merge_body m other ?n ?w = Inl (PanicIndexOutOfRange ?n ?n)"
    using m by (simp add: Merge_body_def index_get_def slice_len_def slots_def)
  moreover have "[?n..<length (heap w ! sig other)] = ?n # [Suc ?n..<length (heap w ! sig other)]"
    using lt by (rule upt_conv_Cons)
  ultimately have "for_each [?n..<length (heap w ! sig other)] (Merge_body m other) ?w =
      Inl (PanicIndexOutOfRange ?n ?n)"
    by simp
  with loop lt show ?thesis
    by (simp add: Merge_def slice_len_def slots_def
          for_range_split [of ?n "length (heap w ! sig other)"])
qed

subsection \<open>NewMinhash and Similarity\<close>

lemma NewMinhash_body_at:
  assumes "a < length (heap w)" and "i < length zs"
  shows "NewMinhash_body a i (w\<lparr>heap := (heap w)[a := zs]\<rparr>) =
    Inr (w\<lparr>heap := (heap w)[a := zs[i := NOT 0]]\<rparr>)"
  using assms by (simp add: NewMinhash_body_def index_set_at)

lemma NewMinhash_loop:
  assumes "a < length (heap w)"
  shows "for_range (length (heap w ! a)) (NewMinhash_body a) w =
    Inr (w\<lparr>heap := (heap w)[a := replicate (length (heap w ! a)) (NOT 0)]\<rparr>)"
proof -
  have "for_range (length (heap w ! a)) (NewMinhash_body a) w =
    Inr (w\<lparr>heap := (heap w)[a :=
      map (\<lambda>i. if i < length (heap w ! a) then (\<lambda>i x. NOT 0) i (heap w ! a ! i)
                else heap w ! a ! i) [0..<length (heap w ! a)]]\<rparr>)"
    by (rule pointwise_loop) (simp_all add: NewMinhash_body_at assms)
  moreover have "map (\<lambda>i. if i < length (heap w ! a) then NOT 0 else heap w ! a ! i)
      [0..<length (heap w ! a)] = replicate (length (heap w ! a)) (NOT 0 :: u64)"
    by (auto intro!: nth_equalityI)
  ultimately show ?thesis by simp
qed

lemma NewMinhash_eq:
  assumes "0 \<le> n" and "n \<le> maxSliceLen"
  shows "NewMinhash hf n w =
    Inr (\<lparr>sig = length (heap w), hashFunc = hf\<rparr>,
         w\<lparr>heap := heap w @ [replicate (nat n) (- 1)]\<rparr>)"
proof -
  let ?w1 = "w\<lparr>heap := heap w @ [replicate (nat n) 0]\<rparr>"
  have "length (heap w) < length (heap ?w1)" by simp
  from NewMinhash_loop [OF this] assms show ?thesis
    by (simp add: NewMinhash_def make_slice_def slice_len_def slots_def)
qed

lemma NewMinhash_out_of_range:
  "n < 0 \<or> maxSliceLen < n \<Longrightarrow> NewMinhash hf n w = Inl PanicMakeSliceLen"
  by (simp add: NewMinhash_def make_slice_def)

lemma Similarity_loop:
  assumes "k \<le> length (slots w (sig m))" and "k \<le> length (slots w (sig other))"
  shows "for_range k (Similarity_body m other w) 0 =
    Inr (card {i. i < k \<and> slots w (sig m) ! i = slots w (sig other) ! i})"
  using assms
proof (induction k)
  case 0
  then show ?case by (simp add: for_range_0)
next
  case (Suc k)
  let ?P = "\<lambda>i. slots w (sig m) ! i = slots w (sig other) ! i"
  have set: "{i. i < Suc k \<and> ?P i} = (if ?P k then insert k {i. i < k \<and> ?P i} else {i. i < k \<and> ?P i})"
    by (auto simp: less_Suc_eq)
  have fin: "finite {i. i < k \<and> ?P i}" by simp
  have notin: "k \<notin> {i. i < k \<and> ?P i}" by simp
  from Suc have IH: "for_range k (Similarity_body m other w) 0 = Inr (card {i. i < k \<and> ?P i})"
    by simp
  have step: "Similarity_body m other w k c = Inr (if ?P k then c + 1 else c)" for c
    using Suc.prems by (simp add: Similarity_body_def index_get_def slice_len_def)
  show ?case
    by (simp add: for_range_Suc IH step set card_insert_disjoint [OF fin notin]
          del: card_insert_disjoint)
qed

lemma Similarity_mismatch:
  "length (slots w (sig m)) \<noteq> length (slots w (sig other)) \<Longrightarrow>
   Similarity m other w = Inr ((Finite 0, Some ErrSigSizeMismatch), w)"
  by (simp add: Similarity_def slice_len_def float64_of_nat_def)

lemma Similarity_eq:
  assumes "length (slots w (sig m)) = length (slots w (sig other))"
  shows "Similarity m other w =
    Inr ((float64_div
            (Finite (real (card {i. i < length (slots w (sig m)) \<and>
                                    slots w (sig m) ! i = slots w (sig other) ! i})))
            (Finite (real (length (slots w (sig m))))), None), w)"
  using assms Similarity_loop [of "length (slots w (sig m))" w m other]
  by (simp add: Similarity_def slice_len_def float64_of_nat_def)

lemma count_le:
  "card {i. i < n \<and> P i} \<le> n"
proof -
  have "card {i. i < n \<and> P i} \<le> card {..<n}"
    by (rule card_mono) auto
  then show ?thesis by simp
qed

subsection \<open>PushAll, PushStrings and NewMinhashFromSigs\<close>

lemma PushAll_eq:
  assumes "allocated w m"
  shows "PushAll m bs w =
    Inr (w\<lparr>heap := (heap w)[sig m :=
           fold (\<lambda>b zs. map (\<lambda>i. min (zs ! i)
                   (fst (hashFunc m b) + of_nat i * snd (hashFunc m b))) [0..<length zs])
             bs (slots w (sig m))],
         hashCalls := hashCalls w @ bs\<rparr>)"
  using assms
proof (induction bs arbitrary: w)
  case Nil
  then show ?case by (simp add: slots_def)
next
  case (Cons b bs)
  let ?step = "\<lambda>b zs. map (\<lambda>i. min (zs ! i)
      (fst (hashFunc m b) + of_nat i * snd (hashFunc m b))) [0..<length zs]"
  let ?w1 = "w\<lparr>heap := (heap w)[sig m := ?step b (slots w (sig m))],
      hashCalls := hashCalls w @ [b]\<rparr>"
  from Cons.prems have m: "sig m < length (heap w)"
    by (simp add: allocated_def)
  have p: "Push m b w = Inr ?w1"
    using Cons.prems by (rule Push_eq)
  have a1: "allocated ?w1 m"
    using m by (simp add: allocated_def)
  have s1: "slots ?w1 (sig m) = ?step b (slots w (sig m))"
    using m by (simp add: slots_def)
  show ?case
    unfolding PushAll.simps p sum.case Cons.IH [OF a1] s1
    by simp
qed

lemma PushStrings_PushAll:
  "PushStrings m ss w = PushAll m (map bytes_of_string ss) w"
  by (induction ss arbitrary: w) (simp_all split: sum.splits)

lemma NewMinhashFromSigs_eq:
  "NewMinhashFromSigs hf e w =
    Inr (\<lparr>sig = length (heap w), hashFunc = hf\<rparr>, w\<lparr>heap := heap w @ [slots w e]\<rparr>)"
  if "e < length (heap w)" and "int (length (slots w e)) \<le> maxSliceLen"
  using that
  by (simp add: NewMinhashFromSigs_def make_slice_def copy_slice_def slice_len_def slots_def
      nth_append)

subsection \<open>Sequences of pushes and their order\<close>

lemma fold_push_Inl:
  "fold (\<lambda>b r. case r of Inl e \<Rightarrow> Inl e | Inr w' \<Rightarrow> Push m b w') bs (Inl e) = Inl e"
  by (induction bs) simp_all

lemma PushAll_fold:
  "PushAll m bs w =
     fold (\<lambda>b r. case r of Inl e \<Rightarrow> Inl e | Inr w' \<Rightarrow> Push m b w') bs (Inr w)"
proof (induction bs arbitrary: w)
  case Nil
  show ?case by simp
next
  case (Cons b bs)
  show ?case
  proof (cases "Push m b w")
    case (Inl e)
    then show ?thesis by (simp add: fold_push_Inl)
  next
    case (Inr w')
    then show ?thesis by (simp add: Cons.IH)
  qed
qed

lemma fold_slots_length:
  "length (fold (\<lambda>b zs. map (\<lambda>i. min (zs ! i) (h b i)) [0..<length zs]) bs zs) = length zs"
  by (induction bs arbitrary: zs) simp_all

lemma fold_slots_nth:
  "i < length zs \<Longrightarrow>
   fold (\<lambda>b zs. map (\<lambda>i. min (zs ! i) (h b i)) [0..<length zs]) bs zs ! i =
     fold (\<lambda>b x. min x (h b i)) bs (zs ! i)"
  by (induction bs arbitrary: zs) simp_all

lemma fold_min_permuted:
  fixes x :: "'a::linorder"
  assumes "mset xs = mset ys"
  shows "fold (\<lambda>b x. min x (g b)) xs x = fold (\<lambda>b x. min x (g b)) ys x"
proof -
  have "(\<lambda>x. min x (g a)) \<circ> (\<lambda>x. min x (g b)) = (\<lambda>x. min x (g b)) \<circ> (\<lambda>x. min x (g a))"
    for a b
    by (rule ext) (simp add: min.assoc min.commute [of "g a" "g b"])
  then have "fold (\<lambda>b x. min x (g b)) xs = fold (\<lambda>b x. min x (g b)) ys"
    using assms by (intro fold_multiset_equiv) simp_all
  then show ?thesis by simp
qed

lemma fold_slots_permuted:
  assumes "mset xs = mset ys"
  shows "fold (\<lambda>b zs. map (\<lambda>i. min (zs ! i) (h b i :: u64)) [0..<length zs]) xs zs =
    fold (\<lambda>b zs. map (\<lambda>i. min (zs ! i) (h b i)) [0..<length zs]) ys zs"
proof (rule nth_equalityI)
  show "length (fold (\<lambda>b zs. map (\<lambda>i. min (zs ! i) (h b i)) [0..<length zs]) xs zs) =
      length (fold (\<lambda>b zs. map (\<lambda>i. min (zs ! i) (h b i)) [0..<length zs]) ys zs)"
    by (simp add: fold_slots_length)
next
  fix i
  assume "i < length (fold (\<lambda>b zs. map (\<lambda>i. min (zs ! i) (h b i)) [0..<length zs]) xs zs)"
  then have i: "i < length zs"
    by (simp add: fold_slots_length)
  show "fold (\<lambda>b zs. map (\<lambda>i. min (zs ! i) (h b i)) [0..<length zs]) xs zs ! i =
      fold (\<lambda>b zs. map (\<lambda>i. min (zs ! i) (h b i)) [0..<length zs]) ys zs ! i"
    unfolding fold_slots_nth [OF i]
    using assms by (rule fold_min_permuted)
qed

section \<open>The claims\<close>

lemma unat_slot_hash:
  "unat (v1 + of_nat i * v2 :: u64) = (unat v1 + i * unat v2) mod 2 ^ 64"
proof -
  have "unat (v1 + of_nat i * v2) = (unat v1 + (i mod 2 ^ 64 * unat v2) mod 2 ^ 64) mod 2 ^ 64"
    by (simp add: unat_word_ariths unat_of_nat)
  also have "\<dots> = (unat v1 + i * unat v2) mod 2 ^ 64"
    by (simp add: mod_simps)
  finally show ?thesis .
qed

subsection \<open>C1: Push takes the slot-wise minimum\<close>

text \<open>
  Claim C1. For every allocated engine and every element \<open>b\<close>, \<^verbatim>\<open>Push(b)\<close> returns
  without a panic, calls the hash function once, on \<open>b\<close> (the log of calls grows by
  exactly \<open>[b]\<close>), and with \<open>(v1, v2)\<close> the pair the hash function returns, every slot
  \<open>i\<close> of the signature is replaced by \<open>h_i = v1 + i * v2\<close>, computed modulo \<open>2 ^ 64\<close>,
  if \<open>h_i\<close> is strictly less than the slot's value and is left unchanged otherwise;
  so the slot holds the minimum of its previous value and \<open>h_i\<close>. The length of the
  signature and every other array of the store are unchanged.
\<close>

theorem Push_min_slots:
  assumes "allocated w m" and "hashFunc m b = (v1, v2)"
  shows "\<exists>w'. Push m b w = Inr w'
    \<and> hashCalls w' = hashCalls w @ [b]
    \<and> length (heap w') = length (heap w)
    \<and> length (slots w' (sig m)) = length (slots w (sig m))
    \<and> (\<forall>i < length (slots w (sig m)).
          unat (v1 + of_nat i * v2) = (unat v1 + i * unat v2) mod 2 ^ 64
        \<and> slots w' (sig m) ! i =
            (if v1 + of_nat i * v2 < slots w (sig m) ! i then v1 + of_nat i * v2
             else slots w (sig m) ! i)
        \<and> slots w' (sig m) ! i = min (slots w (sig m) ! i) (v1 + of_nat i * v2))
    \<and> (\<forall>a. a \<noteq> sig m \<longrightarrow> slots w' a = slots w a)"
proof -
  let ?w' = "w\<lparr>heap := (heap w)[sig m :=
           map (\<lambda>i. min (slots w (sig m) ! i) (v1 + of_nat i * v2))
             [0..<length (slots w (sig m))]],
         hashCalls := hashCalls w @ [b]\<rparr>"
  from assms have eq: "Push m b w = Inr ?w'"
    by (simp add: Push_eq)
  from assms(1) have m: "sig m < length (heap w)"
    by (simp add: allocated_def)
  have new: "slots ?w' (sig m) =
      map (\<lambda>i. min (slots w (sig m) ! i) (v1 + of_nat i * v2)) [0..<length (slots w (sig m))]"
    using m by (simp add: slots_def)
  have mn: "slots ?w' (sig m) ! i = min (slots w (sig m) ! i) (v1 + of_nat i * v2)"
    if "i < length (slots w (sig m))" for i
    using that by (simp add: new)
  have "slots ?w' (sig m) ! i =
      (if v1 + of_nat i * v2 < slots w (sig m) ! i then v1 + of_nat i * v2
       else slots w (sig m) ! i)" if "i < length (slots w (sig m))" for i
    unfolding mn [OF that] by (auto simp: min_def)
  moreover note mn
  moreover have "slots ?w' a = slots w a" if "a \<noteq> sig m" for a
    using that by (simp add: slots_def)
  moreover have "length (slots ?w' (sig m)) = length (slots w (sig m))"
    by (simp add: new)
  ultimately show ?thesis
    using eq unat_slot_hash by simp
qed

text \<open>
  An instance: the signature \<open>[5, 2, 2 ^ 64 - 1]\<close> and an element of length one, for
  which the hash function returns \<open>(1, 3)\<close>, hence \<open>h = [1, 4, 7]\<close>.
\<close>

theorem Push_min_slots_witness:
  "allocated \<lparr>heap = [[5, 2, - 1]], hashCalls = []\<rparr> \<lparr>sig = 0, hashFunc = example_hash\<rparr>
   \<and> hashFunc \<lparr>sig = 0, hashFunc = example_hash\<rparr> [7] = (1, 3)
   \<and> Push \<lparr>sig = 0, hashFunc = example_hash\<rparr> [7] \<lparr>heap = [[5, 2, - 1]], hashCalls = []\<rparr>
       = Inr \<lparr>heap = [[1, 2, 7]], hashCalls = [[7]]\<rparr>"
proof -
  let ?w = "\<lparr>heap = [[5, 2, - 1 :: u64]], hashCalls = []\<rparr>"
  let ?m = "\<lparr>sig = 0, hashFunc = example_hash\<rparr>"
  have a: "allocated ?w ?m" by (simp add: allocated_def)
  have h: "hashFunc ?m [7] = (1, 3)" by (simp add: example_hash_def)
  have e: "Push ?m [7] ?w = Inr \<lparr>heap = [[1, 2, 7]], hashCalls = [[7]]\<rparr>"
    by (simp add: Push_def call_hashFunc_def example_hash_def for_range_def slice_len_def
        slots_def Push_body_def index_set_def)
  from Push_min_slots [OF a h] a h e show ?thesis by simp
qed

subsection \<open>C2: Merge takes the slot-wise minimum of the two signatures\<close>

text \<open>
  Claim C2. For every pair of allocated engines \<open>a\<close> and \<open>b\<close> with signatures of equal
  length, \<^verbatim>\<open>a.Merge(b)\<close> returns without a panic, and afterwards every slot \<open>i\<close> of
  \<open>a\<close>'s signature is the minimum of the values \<open>a\<close> and \<open>b\<close> held at \<open>i\<close> before the
  merge, hence at most \<open>a\<close>'s previous value; \<open>b\<close>'s signature is unchanged (also when
  \<open>b\<close> is \<open>a\<close> itself), and so are all arrays but \<open>a\<close>'s and the log of hash calls.
\<close>

theorem Merge_pointwise_min:
  assumes "allocated w a" and "allocated w b"
    and "length (slots w (sig a)) = length (slots w (sig b))"
  shows "\<exists>w'. Merge a b w = Inr w'
    \<and> length (slots w' (sig a)) = length (slots w (sig a))
    \<and> (\<forall>i < length (slots w (sig a)).
          slots w' (sig a) ! i = min (slots w (sig a) ! i) (slots w (sig b) ! i)
        \<and> slots w' (sig a) ! i \<le> slots w (sig a) ! i)
    \<and> slots w' (sig b) = slots w (sig b)
    \<and> (\<forall>c. c \<noteq> sig a \<longrightarrow> slots w' c = slots w c)
    \<and> length (heap w') = length (heap w)
    \<and> hashCalls w' = hashCalls w"
proof -
  let ?xs = "slots w (sig a)" and ?ys = "slots w (sig b)"
  let ?zs = "map (\<lambda>i. if i < length ?ys then min (?xs ! i) (?ys ! i) else ?xs ! i)
      [0..<length ?xs]"
  let ?w' = "w\<lparr>heap := (heap w)[sig a := ?zs]\<rparr>"
  from assms have eq: "Merge a b w = Inr ?w'"
    by (simp add: Merge_eq)
  from assms(1) have a: "sig a < length (heap w)"
    by (simp add: allocated_def)
  then have new: "slots ?w' (sig a) = ?zs"
    by (simp add: slots_def)
  have mn: "slots ?w' (sig a) ! i = min (?xs ! i) (?ys ! i)" if "i < length ?xs" for i
    unfolding new using that assms(3) by simp
  have le: "slots ?w' (sig a) ! i \<le> ?xs ! i" if "i < length ?xs" for i
    unfolding mn [OF that] by simp
  have other: "slots ?w' c = slots w c" if "c \<noteq> sig a" for c
    using that by (simp add: slots_def)
  have b: "slots ?w' (sig b) = ?ys"
  proof (cases "sig b = sig a")
    case True
    have "?zs = ?xs"
      using True by (auto intro!: nth_equalityI)
    with new True show ?thesis by simp
  next
    case False
    then show ?thesis by (rule other)
  qed
  have len: "length (slots ?w' (sig a)) = length ?xs"
    by (simp add: new)
  show ?thesis
    using eq len mn le b other by simp
qed

text \<open>An instance: \<open>[5, 2, 9]\<close> merged with \<open>[4, 8, 9]\<close> is \<open>[4, 2, 9]\<close>.\<close>

theorem Merge_pointwise_min_witness:
  "allocated \<lparr>heap = [[5, 2, 9], [4, 8, 9]], hashCalls = []\<rparr> \<lparr>sig = 0, hashFunc = example_hash\<rparr>
   \<and> allocated \<lparr>heap = [[5, 2, 9], [4, 8, 9]], hashCalls = []\<rparr> \<lparr>sig = 1, hashFunc = example_hash\<rparr>
   \<and> length (slots \<lparr>heap = [[5, 2, 9], [4, 8, 9]], hashCalls = []\<rparr> 0)
     = length (slots \<lparr>heap = [[5, 2, 9], [4, 8, 9]], hashCalls = []\<rparr> 1)
   \<and> Merge \<lparr>sig = 0, hashFunc = example_hash\<rparr> \<lparr>sig = 1, hashFunc = example_hash\<rparr>
         \<lparr>heap = [[5, 2, 9], [4, 8, 9]], hashCalls = []\<rparr>
       = Inr \<lparr>heap = [[4, 2, 9], [4, 8, 9]], hashCalls = []\<rparr>"
proof -
  let ?w = "\<lparr>heap = [[5, 2, 9 :: u64], [4, 8, 9]], hashCalls = []\<rparr>"
  let ?a = "\<lparr>sig = 0, hashFunc = example_hash\<rparr>"
  let ?b = "\<lparr>sig = 1, hashFunc = example_hash\<rparr>"
  have a: "allocated ?w ?a" and b: "allocated ?w ?b"
    by (simp_all add: allocated_def)
  have l: "length (slots ?w (sig ?a)) = length (slots ?w (sig ?b))"
    by (simp add: slots_def)
  have e: "Merge ?a ?b ?w = Inr \<lparr>heap = [[4, 2, 9], [4, 8, 9]], hashCalls = []\<rparr>"
    by (simp add: Merge_def for_range_def slice_len_def slots_def Merge_body_def
        index_get_def index_set_def)
  from Merge_pointwise_min [OF a b l] a b l e show ?thesis by simp
qed

subsection \<open>C10: the indices Merge uses\<close>

text \<open>
  Claim C10. When the other engine's signature is no longer than the receiver's,
  \<^verbatim>\<open>Merge\<close> returns without a panic: every index \<open>i\<close> of the other signature is a valid
  index of the receiver's (the index expression \<^verbatim>\<open>m.sig[i]\<close> yields a value), and every
  receiver slot at an index from the other signature's length on is unchanged. When the
  other signature is strictly longer, \<^verbatim>\<open>Merge\<close> indexes the receiver's signature at its
  own length, past its end, which is Go's panic \<^verbatim>\<open>index out of range\<close>.
\<close>

theorem Merge_index_range:
  assumes "allocated w m" and "allocated w other"
  shows "(length (slots w (sig other)) \<le> length (slots w (sig m)) \<longrightarrow>
      (\<exists>w'. Merge m other w = Inr w'
        \<and> (\<forall>i < length (slots w (sig other)). index_get w (sig m) i = Inr (slots w (sig m) ! i))
        \<and> length (slots w' (sig m)) = length (slots w (sig m))
        \<and> (\<forall>i. length (slots w (sig other)) \<le> i \<and> i < length (slots w (sig m)) \<longrightarrow>
              slots w' (sig m) ! i = slots w (sig m) ! i)))
    \<and> (length (slots w (sig m)) < length (slots w (sig other)) \<longrightarrow>
      Merge m other w =
        Inl (PanicIndexOutOfRange (length (slots w (sig m))) (length (slots w (sig m))))
      \<and> index_get w (sig m) (length (slots w (sig m))) =
        Inl (PanicIndexOutOfRange (length (slots w (sig m))) (length (slots w (sig m)))))"
proof (intro conjI impI)
  assume le: "length (slots w (sig other)) \<le> length (slots w (sig m))"
  let ?xs = "slots w (sig m)" and ?ys = "slots w (sig other)"
  let ?zs = "map (\<lambda>i. if i < length ?ys then min (?xs ! i) (?ys ! i) else ?xs ! i)
      [0..<length ?xs]"
  let ?w' = "w\<lparr>heap := (heap w)[sig m := ?zs]\<rparr>"
  from assms le have eq: "Merge m other w = Inr ?w'"
    by (simp add: Merge_eq)
  from assms(1) have "sig m < length (heap w)"
    by (simp add: allocated_def)
  then have new: "slots ?w' (sig m) = ?zs"
    by (simp add: slots_def)
  have "index_get w (sig m) i = Inr (?xs ! i)" if "i < length ?ys" for i
    using that le by (simp add: index_get_def slice_len_def)
  moreover have "slots ?w' (sig m) ! i = ?xs ! i" if "length ?ys \<le> i" "i < length ?xs" for i
    using that by (simp add: new)
  moreover have "length (slots ?w' (sig m)) = length ?xs"
    by (simp add: new)
  ultimately show "\<exists>w'. Merge m other w = Inr w'
        \<and> (\<forall>i < length ?ys. index_get w (sig m) i = Inr (?xs ! i))
        \<and> length (slots w' (sig m)) = length ?xs
        \<and> (\<forall>i. length ?ys \<le> i \<and> i < length ?xs \<longrightarrow> slots w' (sig m) ! i = ?xs ! i)"
    using eq by simp
next
  assume "length (slots w (sig m)) < length (slots w (sig other))"
  with assms(1) show "Merge m other w =
      Inl (PanicIndexOutOfRange (length (slots w (sig m))) (length (slots w (sig m))))"
    by (rule Merge_panics)
next
  show "index_get w (sig m) (length (slots w (sig m))) =
      Inl (PanicIndexOutOfRange (length (slots w (sig m))) (length (slots w (sig m))))"
    by (simp add: index_get_def slice_len_def)
qed

text \<open>
  An instance in both directions: the shorter \<open>[4, 8]\<close> merged into \<open>[5, 2, 9]\<close>, and
  \<open>[5, 2, 9]\<close> merged into \<open>[4, 8]\<close>, which panics at index 2.
\<close>

theorem Merge_index_range_witness:
  "allocated \<lparr>heap = [[5, 2, 9], [4, 8]], hashCalls = []\<rparr> \<lparr>sig = 0, hashFunc = example_hash\<rparr>
   \<and> allocated \<lparr>heap = [[5, 2, 9], [4, 8]], hashCalls = []\<rparr> \<lparr>sig = 1, hashFunc = example_hash\<rparr>
   \<and> Merge \<lparr>sig = 0, hashFunc = example_hash\<rparr> \<lparr>sig = 1, hashFunc = example_hash\<rparr>
         \<lparr>heap = [[5, 2, 9], [4, 8]], hashCalls = []\<rparr>
       = Inr \<lparr>heap = [[4, 2, 9], [4, 8]], hashCalls = []\<rparr>
   \<and> Merge \<lparr>sig = 1, hashFunc = example_hash\<rparr> \<lparr>sig = 0, hashFunc = example_hash\<rparr>
         \<lparr>heap = [[5, 2, 9], [4, 8]], hashCalls = []\<rparr>
       = Inl (PanicIndexOutOfRange 2 2)"
proof -
  let ?w = "\<lparr>heap = [[5, 2, 9 :: u64], [4, 8]], hashCalls = []\<rparr>"
  let ?a = "\<lparr>sig = 0, hashFunc = example_hash\<rparr>"
  let ?b = "\<lparr>sig = 1, hashFunc = example_hash\<rparr>"
  have a: "allocated ?w ?a" and b: "allocated ?w ?b"
    by (simp_all add: allocated_def)
  have e: "Merge ?a ?b ?w = Inr \<lparr>heap = [[4, 2, 9], [4, 8]], hashCalls = []\<rparr>"
    by (simp add: Merge_def for_range_def slice_len_def slots_def Merge_body_def
        index_get_def index_set_def)
  have "length (slots ?w (sig ?b)) < length (slots ?w (sig ?a))"
    by (simp add: slots_def)
  with Merge_index_range [OF b a]
  have p: "Merge ?b ?a ?w = Inl (PanicIndexOutOfRange 2 2)"
    by (simp add: slots_def)
  from Merge_index_range [OF a b] a b e p show ?thesis by simp
qed

subsection \<open>C5: the initial state\<close>

text \<open>
  Claim C5. For every hash function and every size \<open>n > 0\<close> that \<^verbatim>\<open>make\<close> accepts
  (\<open>n \<le> maxSliceLen\<close>; above it \<^verbatim>\<open>NewMinhash\<close> panics and builds no engine),
  \<^verbatim>\<open>NewMinhash\<close> returns an engine bound to the hash function whose signature has
  exactly \<open>n\<close> slots, each the maximum unsigned 64-bit value \<open>2 ^ 64 - 1\<close>; the arrays
  the store held before are unchanged. A second engine constructed with the same size (and any hash function)
  leaves the first one's signature as it is, and \<^verbatim>\<open>Similarity\<close> between the two fresh,
  never-pushed engines returns \<open>1.0\<close> and no error, in either direction.
\<close>

theorem NewMinhash_fresh:
  assumes "0 < n" and "n \<le> maxSliceLen"
  shows "\<exists>m1 w1 m2 w2.
      NewMinhash hf n w = Inr (m1, w1)
    \<and> hashFunc m1 = hf
    \<and> allocated w1 m1
    \<and> length (slots w1 (sig m1)) = nat n
    \<and> (\<forall>x \<in> set (slots w1 (sig m1)). x = - 1 \<and> unat x = 2 ^ 64 - 1)
    \<and> (\<forall>c < length (heap w). slots w1 c = slots w c)
    \<and> NewMinhash hf' n w1 = Inr (m2, w2)
    \<and> sig m2 \<noteq> sig m1
    \<and> slots w2 (sig m1) = slots w1 (sig m1)
    \<and> Similarity m1 m2 w2 = Inr ((Finite 1, None), w2)
    \<and> Similarity m2 m1 w2 = Inr ((Finite 1, None), w2)"
proof -
  let ?m1 = "\<lparr>sig = length (heap w), hashFunc = hf\<rparr>"
  let ?w1 = "w\<lparr>heap := heap w @ [replicate (nat n) (- 1)]\<rparr>"
  let ?m2 = "\<lparr>sig = length (heap ?w1), hashFunc = hf'\<rparr>"
  let ?w2 = "?w1\<lparr>heap := heap ?w1 @ [replicate (nat n) (- 1)]\<rparr>"
  from assms have n: "0 \<le> n" by simp
  have c1: "NewMinhash hf n w = Inr (?m1, ?w1)"
    using n assms(2) by (rule NewMinhash_eq)
  have c2: "NewMinhash hf' n ?w1 = Inr (?m2, ?w2)"
    using n assms(2) by (rule NewMinhash_eq)
  have s1: "slots ?w1 (sig ?m1) = replicate (nat n) (- 1)"
    by (simp add: slots_def)
  have s21: "slots ?w2 (sig ?m1) = replicate (nat n) (- 1)"
    by (simp add: slots_def nth_append)
  have s22: "slots ?w2 (sig ?m2) = replicate (nat n) (- 1)"
    by (simp add: slots_def nth_append)
  have frame: "slots ?w1 c = slots w c" if "c < length (heap w)" for c
    using that by (simp add: slots_def nth_append)
  have count: "card {i. i < nat n \<and> replicate (nat n) (- 1 :: u64) ! i = replicate (nat n) (- 1) ! i}
      = nat n"
  proof -
    have "{i. i < nat n \<and> replicate (nat n) (- 1 :: u64) ! i = replicate (nat n) (- 1) ! i}
        = {..<nat n}"
      by auto
    then show ?thesis by simp
  qed
  have div: "float64_div (Finite (real (nat n))) (Finite (real (nat n))) = Finite 1"
    using assms by simp
  have sim12: "Similarity ?m1 ?m2 ?w2 = Inr ((Finite 1, None), ?w2)"
    using Similarity_eq [of ?w2 ?m1 ?m2] by (simp only: s21 s22 length_replicate count div)
  have sim21: "Similarity ?m2 ?m1 ?w2 = Inr ((Finite 1, None), ?w2)"
    using Similarity_eq [of ?w2 ?m2 ?m1] by (simp only: s21 s22 length_replicate count div)
  have mx: "unat (- 1 :: u64) = 2 ^ 64 - 1"
    by (simp add: unsigned_minus_1_eq_mask mask_eq_exp_minus_1)
  have a1: "allocated ?w1 ?m1"
    by (simp add: allocated_def)
  have hf: "hashFunc ?m1 = hf"
    by simp
  have len: "length (slots ?w1 (sig ?m1)) = nat n"
    unfolding s1 by simp
  have all_max: "\<forall>x \<in> set (slots ?w1 (sig ?m1)). x = - 1 \<and> unat x = 2 ^ 64 - 1"
    unfolding s1 using mx by simp
  have frame_all: "\<forall>c < length (heap w). slots ?w1 c = slots w c"
    using frame by simp
  have neq: "sig ?m2 \<noteq> sig ?m1"
    by simp
  have kept: "slots ?w2 (sig ?m1) = slots ?w1 (sig ?m1)"
    unfolding s1 s21 by (rule refl)
  show ?thesis
    by (rule exI [of _ ?m1], rule exI [of _ ?w1], rule exI [of _ ?m2], rule exI [of _ ?w2])
      (intro conjI c1 hf a1 len all_max frame_all c2 neq kept sim12 sim21)
qed

text \<open>An instance: two engines of size 2 in the empty store.\<close>

theorem NewMinhash_fresh_witness:
  "(0::int) < 2 \<and> 2 \<le> maxSliceLen
   \<and> NewMinhash example_hash 2 \<lparr>heap = [], hashCalls = []\<rparr>
      = Inr (\<lparr>sig = 0, hashFunc = example_hash\<rparr>,
             \<lparr>heap = [[- 1, - 1]], hashCalls = []\<rparr>)
   \<and> (\<exists>m2 w2. NewMinhash example_hash 2
          \<lparr>heap = [[- 1, - 1]], hashCalls = []\<rparr>
          = Inr (m2, w2)
        \<and> Similarity \<lparr>sig = 0, hashFunc = example_hash\<rparr> m2 w2 = Inr ((Finite 1, None), w2))"
proof -
  let ?w = "\<lparr>heap = [], hashCalls = []\<rparr>"
  let ?m1 = "\<lparr>sig = 0, hashFunc = example_hash\<rparr>"
  let ?w1 = "\<lparr>heap = [[- 1 :: u64, - 1]], hashCalls = []\<rparr>"
  have n: "(0::int) < 2" by simp
  have l: "2 \<le> maxSliceLen" by (simp add: maxSliceLen_def)
  have e: "NewMinhash example_hash 2 ?w = Inr (?m1, ?w1)"
    using l by (simp add: NewMinhash_def make_slice_def slice_len_def slots_def for_range_def
        NewMinhash_body_def index_set_def numeral_2_eq_2)
  from NewMinhash_fresh [OF n l, of example_hash ?w example_hash]
  obtain m1 w1 m2 w2 where
    "NewMinhash example_hash 2 ?w = Inr (m1, w1)"
    "NewMinhash example_hash 2 w1 = Inr (m2, w2)"
    "Similarity m1 m2 w2 = Inr ((Finite 1, None), w2)"
    by blast
  with e have "\<exists>m2 w2. NewMinhash example_hash 2 ?w1 = Inr (m2, w2)
        \<and> Similarity ?m1 m2 w2 = Inr ((Finite 1, None), w2)"
    by auto
  with n l e show ?thesis by simp
qed

subsection \<open>C3: the estimate of Similarity\<close>

text \<open>
  Claim C3 says that for every pair of engines with signatures of equal length
  \<^verbatim>\<open>Similarity\<close> returns the number of equal slots divided by the length, a value in
  \<open>[0.0, 1.0]\<close>, as the function's own comment does (``a float between 0.0 (0% match) and
  1.0 (100% match)''). The code misses the length 0: for two engines with empty
  signatures, made by \<^verbatim>\<open>NewMinhashFromSigs\<close> from an empty slice or by \<^verbatim>\<open>NewMinhash\<close> with
  size 0, the lengths are equal, the loop does not run and the function returns
  \<^verbatim>\<open>float64(0) / float64(0)\<close>, which is \<open>NaN\<close>, with a \<^verbatim>\<open>nil\<close> error.
\<close>

theorem Similarity_empty_signatures:
  "NewMinhashFromSigs example_hash 0 \<lparr>heap = [[]], hashCalls = []\<rparr>
     = Inr (\<lparr>sig = 1, hashFunc = example_hash\<rparr>, \<lparr>heap = [[], []], hashCalls = []\<rparr>)
   \<and> NewMinhashFromSigs example_hash 0 \<lparr>heap = [[], []], hashCalls = []\<rparr>
     = Inr (\<lparr>sig = 2, hashFunc = example_hash\<rparr>, \<lparr>heap = [[], [], []], hashCalls = []\<rparr>)
   \<and> Similarity \<lparr>sig = 1, hashFunc = example_hash\<rparr> \<lparr>sig = 2, hashFunc = example_hash\<rparr>
       \<lparr>heap = [[], [], []], hashCalls = []\<rparr>
     = Inr ((NaN, None), \<lparr>heap = [[], [], []], hashCalls = []\<rparr>)
   \<and> NewMinhash example_hash 0 \<lparr>heap = [], hashCalls = []\<rparr>
     = Inr (\<lparr>sig = 0, hashFunc = example_hash\<rparr>, \<lparr>heap = [[]], hashCalls = []\<rparr>)
   \<and> Similarity \<lparr>sig = 0, hashFunc = example_hash\<rparr> \<lparr>sig = 0, hashFunc = example_hash\<rparr>
       \<lparr>heap = [[]], hashCalls = []\<rparr>
     = Inr ((NaN, None), \<lparr>heap = [[]], hashCalls = []\<rparr>)"
  by (simp add: NewMinhashFromSigs_def NewMinhash_def make_slice_def maxSliceLen_def
      copy_slice_def slice_len_def slots_def Similarity_def for_range_def float64_of_nat_def)

text \<open>
  For signatures of equal length that is not zero the comment is right: \<^verbatim>\<open>Similarity\<close>
  returns, with no error and no change of the store, the number of indices at which the
  two signatures hold equal values divided by the length, and this quotient lies in
  \<open>[0, 1]\<close>.
\<close>

theorem Similarity_estimate:
  assumes "allocated w m" and "allocated w other"
    and "length (slots w (sig m)) = length (slots w (sig other))"
    and "0 < length (slots w (sig m))"
  shows "\<exists>r. Similarity m other w = Inr ((Finite r, None), w)
    \<and> r = real (card {i. i < length (slots w (sig m))
                        \<and> slots w (sig m) ! i = slots w (sig other) ! i})
          / real (length (slots w (sig m)))
    \<and> 0 \<le> r \<and> r \<le> 1"
proof -
  let ?n = "length (slots w (sig m))"
  let ?c = "card {i. i < ?n \<and> slots w (sig m) ! i = slots w (sig other) ! i}"
  have "?c \<le> ?n" by (rule count_le)
  then have le: "real ?c / real ?n \<le> 1"
    using assms(4) by simp
  have ge: "0 \<le> real ?c / real ?n"
    by simp
  have "float64_div (Finite (real ?c)) (Finite (real ?n)) = Finite (real ?c / real ?n)"
    using assms(4) by simp
  with Similarity_eq [OF assms(3)]
  have "Similarity m other w = Inr ((Finite (real ?c / real ?n), None), w)"
    by simp
  with le ge show ?thesis by blast
qed

text \<open>An instance: \<open>[5, 2, 9, 1]\<close> and \<open>[4, 2, 9, 7]\<close> agree on two slots of four.\<close>

theorem Similarity_estimate_witness:
  "allocated \<lparr>heap = [[5, 2, 9, 1], [4, 2, 9, 7]], hashCalls = []\<rparr> \<lparr>sig = 0, hashFunc = example_hash\<rparr>
   \<and> allocated \<lparr>heap = [[5, 2, 9, 1], [4, 2, 9, 7]], hashCalls = []\<rparr> \<lparr>sig = 1, hashFunc = example_hash\<rparr>
   \<and> length (slots \<lparr>heap = [[5, 2, 9, 1], [4, 2, 9, 7]], hashCalls = []\<rparr> 0)
     = length (slots \<lparr>heap = [[5, 2, 9, 1], [4, 2, 9, 7]], hashCalls = []\<rparr> 1)
   \<and> 0 < length (slots \<lparr>heap = [[5, 2, 9, 1], [4, 2, 9, 7]], hashCalls = []\<rparr> 0)
   \<and> Similarity \<lparr>sig = 0, hashFunc = example_hash\<rparr> \<lparr>sig = 1, hashFunc = example_hash\<rparr>
         \<lparr>heap = [[5, 2, 9, 1], [4, 2, 9, 7]], hashCalls = []\<rparr>
       = Inr ((Finite (1 / 2), None), \<lparr>heap = [[5, 2, 9, 1], [4, 2, 9, 7]], hashCalls = []\<rparr>)"
proof -
  let ?w = "\<lparr>heap = [[5, 2, 9, 1 :: u64], [4, 2, 9, 7]], hashCalls = []\<rparr>"
  let ?a = "\<lparr>sig = 0, hashFunc = example_hash\<rparr>"
  let ?b = "\<lparr>sig = 1, hashFunc = example_hash\<rparr>"
  have a: "allocated ?w ?a" and b: "allocated ?w ?b"
    by (simp_all add: allocated_def)
  have l: "length (slots ?w (sig ?a)) = length (slots ?w (sig ?b))"
    and p: "0 < length (slots ?w (sig ?a))"
    by (simp_all add: slots_def)
  have e: "Similarity ?a ?b ?w = Inr ((Finite (1 / 2), None), ?w)"
    by (simp add: Similarity_def for_range_def slice_len_def slots_def Similarity_body_def
        index_get_def float64_of_nat_def)
  from Similarity_estimate [OF a b l p]
  have c: "\<exists>r. Similarity ?a ?b ?w = Inr ((Finite r, None), ?w) \<and> 0 \<le> r \<and> r \<le> 1"
    by blast
  from c a b l p e show ?thesis by simp
qed

subsection \<open>C4: the error of Similarity, the only failure\<close>

text \<open>
  Claim C4. For allocated engines, \<^verbatim>\<open>Similarity\<close> never panics and returns the store as
  it received it, so both signatures are unchanged; the error it returns is
  \<^verbatim>\<open>ErrSigSizeMismatch\<close> if and only if the lengths of the two signatures differ, and
  \<^verbatim>\<open>nil\<close> if and only if they are equal; with the error the estimate is zero: the
  comparison loop is not run, the result is this pair whatever the slots hold.
  \<^verbatim>\<open>Similarity\<close> is the only operation that can fail. On valid inputs every other
  operation returns without a panic: \<^verbatim>\<open>Push\<close>, \<^verbatim>\<open>PushAll\<close>, \<^verbatim>\<open>PushStrings\<close> and
  \<^verbatim>\<open>Signature\<close> on every allocated engine, \<^verbatim>\<open>NewMinhashFromSigs\<close> on a slice that exists
  (its length is within the limit of \<^verbatim>\<open>make\<close>), \<^verbatim>\<open>NewMinhash\<close> on a size from 0 to the
  limit of \<^verbatim>\<open>make\<close>, and \<^verbatim>\<open>Merge\<close> when the other signature is no longer than the
  receiver's, in particular when the lengths are equal, as the specification requires.
  And on no input at all does \<^verbatim>\<open>Merge\<close>, \<^verbatim>\<open>NewMinhash\<close> or \<^verbatim>\<open>NewMinhashFromSigs\<close>
  return the error value.
\<close>

theorem Similarity_only_error:
  assumes "allocated w m" and "allocated w other"
  shows "(\<exists>est err. Similarity m other w = Inr ((est, err), w)
        \<and> (err = Some ErrSigSizeMismatch \<longleftrightarrow>
             length (slots w (sig m)) \<noteq> length (slots w (sig other)))
        \<and> (err = None \<longleftrightarrow> length (slots w (sig m)) = length (slots w (sig other)))
        \<and> (length (slots w (sig m)) \<noteq> length (slots w (sig other)) \<longrightarrow> est = Finite 0))
    \<and> (\<exists>w'. Push m b w = Inr w')
    \<and> (\<exists>w'. PushAll m bb w = Inr w')
    \<and> (\<exists>w'. PushStrings m ss w = Inr w')
    \<and> Signature m w = (sig m, w)
    \<and> (int (length (slots w (sig other))) \<le> maxSliceLen \<longrightarrow>
          (\<exists>m' w'. NewMinhashFromSigs hf (sig other) w = Inr (m', w')))
    \<and> (0 \<le> n \<and> n \<le> maxSliceLen \<longrightarrow> (\<exists>m' w'. NewMinhash hf n w = Inr (m', w')))
    \<and> (length (slots w (sig other)) \<le> length (slots w (sig m)) \<longrightarrow>
          (\<exists>w'. Merge m other w = Inr w'))
    \<and> Merge m other w \<noteq> Inl ErrSigSizeMismatch
    \<and> NewMinhash hf n w \<noteq> Inl ErrSigSizeMismatch
    \<and> NewMinhashFromSigs hf (sig other) w \<noteq> Inl ErrSigSizeMismatch"
proof -
  have sim: "\<exists>est err. Similarity m other w = Inr ((est, err), w)
        \<and> (err = Some ErrSigSizeMismatch \<longleftrightarrow>
             length (slots w (sig m)) \<noteq> length (slots w (sig other)))
        \<and> (err = None \<longleftrightarrow> length (slots w (sig m)) = length (slots w (sig other)))
        \<and> (length (slots w (sig m)) \<noteq> length (slots w (sig other)) \<longrightarrow> est = Finite 0)"
  proof (cases "length (slots w (sig m)) = length (slots w (sig other))")
    case True
    from Similarity_eq [OF True] True show ?thesis by simp
  next
    case False
    from Similarity_mismatch [OF False] False show ?thesis by simp
  qed
  have push: "\<exists>w'. Push m b w = Inr w'"
    using assms(1) by (simp add: Push_eq)
  have pushAll: "\<exists>w'. PushAll m bb w = Inr w'" for bb
    using assms(1) by (simp add: PushAll_eq)
  have pushStrings: "\<exists>w'. PushStrings m ss w = Inr w'"
    unfolding PushStrings_PushAll by (rule pushAll)
  have signature: "Signature m w = (sig m, w)"
    by (simp add: Signature_def)
  have fromSigs: "int (length (slots w (sig other))) \<le> maxSliceLen \<longrightarrow>
          (\<exists>m' w'. NewMinhashFromSigs hf (sig other) w = Inr (m', w'))"
    using assms(2) by (simp add: NewMinhashFromSigs_eq allocated_def)
  have new: "0 \<le> n \<and> n \<le> maxSliceLen \<longrightarrow> (\<exists>m' w'. NewMinhash hf n w = Inr (m', w'))"
    by (simp add: NewMinhash_eq)
  have merge: "length (slots w (sig other)) \<le> length (slots w (sig m)) \<longrightarrow>
          (\<exists>w'. Merge m other w = Inr w')"
    using assms(1) by (simp add: Merge_eq)
  have merge_err: "Merge m other w \<noteq> Inl ErrSigSizeMismatch"
  proof (cases "length (slots w (sig other)) \<le> length (slots w (sig m))")
    case True
    with assms(1) show ?thesis by (simp add: Merge_eq)
  next
    case False
    with assms(1) show ?thesis by (simp add: Merge_panics)
  qed
  have new_err: "NewMinhash hf n w \<noteq> Inl ErrSigSizeMismatch"
  proof (cases "0 \<le> n \<and> n \<le> maxSliceLen")
    case True
    then show ?thesis by (simp add: NewMinhash_eq)
  next
    case False
    then have "n < 0 \<or> maxSliceLen < n" by auto
    then show ?thesis by (simp add: NewMinhash_out_of_range)
  qed
  have fromSigs_err: "NewMinhashFromSigs hf (sig other) w \<noteq> Inl ErrSigSizeMismatch"
    by (simp add: NewMinhashFromSigs_def make_slice_def)
  show ?thesis
    by (intro conjI sim push pushAll pushStrings signature fromSigs new merge
        merge_err new_err fromSigs_err)
qed

text \<open>
  An instance: signatures of lengths 3 and 2, compared with each other and with
  themselves, the shorter merged into the longer, and \<^verbatim>\<open>NewMinhash\<close> with the size 2.
\<close>

theorem Similarity_only_error_witness:
  "allocated \<lparr>heap = [[5, 2, 9], [4, 8]], hashCalls = []\<rparr> \<lparr>sig = 0, hashFunc = example_hash\<rparr>
   \<and> allocated \<lparr>heap = [[5, 2, 9], [4, 8]], hashCalls = []\<rparr> \<lparr>sig = 1, hashFunc = example_hash\<rparr>
   \<and> length (slots \<lparr>heap = [[5, 2, 9], [4, 8]], hashCalls = []\<rparr> 0)
       \<noteq> length (slots \<lparr>heap = [[5, 2, 9], [4, 8]], hashCalls = []\<rparr> 1)
   \<and> length (slots \<lparr>heap = [[5, 2, 9], [4, 8]], hashCalls = []\<rparr> 1)
       \<le> length (slots \<lparr>heap = [[5, 2, 9], [4, 8]], hashCalls = []\<rparr> 0)
   \<and> int (length (slots \<lparr>heap = [[5, 2, 9], [4, 8]], hashCalls = []\<rparr> 1)) \<le> maxSliceLen
   \<and> (0::int) \<le> 2 \<and> 2 \<le> maxSliceLen
   \<and> Similarity \<lparr>sig = 0, hashFunc = example_hash\<rparr> \<lparr>sig = 1, hashFunc = example_hash\<rparr>
         \<lparr>heap = [[5, 2, 9], [4, 8]], hashCalls = []\<rparr>
       = Inr ((Finite 0, Some ErrSigSizeMismatch), \<lparr>heap = [[5, 2, 9], [4, 8]], hashCalls = []\<rparr>)
   \<and> Similarity \<lparr>sig = 0, hashFunc = example_hash\<rparr> \<lparr>sig = 0, hashFunc = example_hash\<rparr>
         \<lparr>heap = [[5, 2, 9], [4, 8]], hashCalls = []\<rparr>
       = Inr ((Finite 1, None), \<lparr>heap = [[5, 2, 9], [4, 8]], hashCalls = []\<rparr>)
   \<and> (\<exists>w'. Merge \<lparr>sig = 0, hashFunc = example_hash\<rparr> \<lparr>sig = 1, hashFunc = example_hash\<rparr>
         \<lparr>heap = [[5, 2, 9], [4, 8]], hashCalls = []\<rparr> = Inr w')
   \<and> (\<exists>m' w'. NewMinhash example_hash 2 \<lparr>heap = [[5, 2, 9], [4, 8]], hashCalls = []\<rparr>
         = Inr (m', w'))
   \<and> (\<exists>m' w'. NewMinhashFromSigs example_hash 1 \<lparr>heap = [[5, 2, 9], [4, 8]], hashCalls = []\<rparr>
         = Inr (m', w'))"
proof -
  let ?w = "\<lparr>heap = [[5, 2, 9 :: u64], [4, 8]], hashCalls = []\<rparr>"
  let ?a = "\<lparr>sig = 0, hashFunc = example_hash\<rparr>"
  let ?b = "\<lparr>sig = 1, hashFunc = example_hash\<rparr>"
  have a: "allocated ?w ?a" and b: "allocated ?w ?b"
    by (simp_all add: allocated_def)
  have l: "length (slots ?w 0) \<noteq> length (slots ?w 1)"
    and l': "length (slots ?w 1) \<le> length (slots ?w 0)"
    by (simp_all add: slots_def)
  have k: "int (length (slots ?w 1)) \<le> maxSliceLen"
    and n: "(0::int) \<le> 2" and n': "2 \<le> maxSliceLen"
    by (simp_all add: slots_def maxSliceLen_def)
  note inst = Similarity_only_error [OF a b, of "[]" "[]" "[]" example_hash 2]
  have s1: "Similarity ?a ?b ?w = Inr ((Finite 0, Some ErrSigSizeMismatch), ?w)"
    using inst l by auto
  have s2: "Similarity ?a ?a ?w = Inr ((Finite 1, None), ?w)"
    by (simp add: Similarity_def for_range_def slice_len_def slots_def Similarity_body_def
        index_get_def float64_of_nat_def)
  have m1: "\<exists>w'. Merge ?a ?b ?w = Inr w'"
    using inst l' by simp
  have n1: "\<exists>m' w'. NewMinhash example_hash 2 ?w = Inr (m', w')"
    using inst n n' by simp
  have f1: "\<exists>m' w'. NewMinhashFromSigs example_hash 1 ?w = Inr (m', w')"
    using inst k by simp
  show ?thesis
    by (intro conjI a b l l' k n n' s1 s2 m1 n1 f1)
qed

subsection \<open>C6: the slice Signature returns\<close>

text \<open>
  Claim C6 says that mutating the sequence \<^verbatim>\<open>Signature()\<close> returns leaves the engine's
  later behaviour unchanged, or that the sequence is a copy. The code returns \<^verbatim>\<open>m.sig\<close>,
  the engine's own slice. For two fresh engines of size 2, whose similarity is \<open>1.0\<close>:
  the slice \<^verbatim>\<open>Signature\<close> returns for the first is the address of its own array, not a
  new one, and after the caller's assignment \<^verbatim>\<open>s[0] = 7\<close> through it the engine's
  signature reads \<open>[7, 2 ^ 64 - 1]\<close> and the similarity of the two engines is \<open>0.5\<close>.
\<close>

theorem Signature_write_through:
  "NewMinhash example_hash 2 \<lparr>heap = [], hashCalls = []\<rparr>
     = Inr (\<lparr>sig = 0, hashFunc = example_hash\<rparr>, \<lparr>heap = [[- 1, - 1]], hashCalls = []\<rparr>)
   \<and> NewMinhash example_hash 2 \<lparr>heap = [[- 1, - 1]], hashCalls = []\<rparr>
     = Inr (\<lparr>sig = 1, hashFunc = example_hash\<rparr>,
            \<lparr>heap = [[- 1, - 1], [- 1, - 1]], hashCalls = []\<rparr>)
   \<and> Similarity \<lparr>sig = 0, hashFunc = example_hash\<rparr> \<lparr>sig = 1, hashFunc = example_hash\<rparr>
       \<lparr>heap = [[- 1, - 1], [- 1, - 1]], hashCalls = []\<rparr>
     = Inr ((Finite 1, None), \<lparr>heap = [[- 1, - 1], [- 1, - 1]], hashCalls = []\<rparr>)
   \<and> Signature \<lparr>sig = 0, hashFunc = example_hash\<rparr>
       \<lparr>heap = [[- 1, - 1], [- 1, - 1]], hashCalls = []\<rparr>
     = (0, \<lparr>heap = [[- 1, - 1], [- 1, - 1]], hashCalls = []\<rparr>)
   \<and> index_set 0 0 7 \<lparr>heap = [[- 1, - 1], [- 1, - 1]], hashCalls = []\<rparr>
     = Inr \<lparr>heap = [[7, - 1], [- 1, - 1]], hashCalls = []\<rparr>
   \<and> slots \<lparr>heap = [[7, - 1], [- 1, - 1]], hashCalls = []\<rparr>
       (fst (Signature \<lparr>sig = 0, hashFunc = example_hash\<rparr>
          \<lparr>heap = [[7, - 1], [- 1, - 1]], hashCalls = []\<rparr>))
     = [7, - 1]
   \<and> Similarity \<lparr>sig = 0, hashFunc = example_hash\<rparr> \<lparr>sig = 1, hashFunc = example_hash\<rparr>
       \<lparr>heap = [[7, - 1], [- 1, - 1]], hashCalls = []\<rparr>
     = Inr ((Finite (1 / 2), None), \<lparr>heap = [[7, - 1], [- 1, - 1]], hashCalls = []\<rparr>)"
proof -
  let ?m0 = "\<lparr>sig = 0, hashFunc = example_hash\<rparr>"
  let ?m1 = "\<lparr>sig = 1, hashFunc = example_hash\<rparr>"
  let ?w1 = "\<lparr>heap = [[- 1 :: u64, - 1]], hashCalls = []\<rparr>"
  let ?w2 = "\<lparr>heap = [[- 1 :: u64, - 1], [- 1, - 1]], hashCalls = []\<rparr>"
  let ?w3 = "\<lparr>heap = [[7 :: u64, - 1], [- 1, - 1]], hashCalls = []\<rparr>"
  have new0: "NewMinhash example_hash 2 \<lparr>heap = [], hashCalls = []\<rparr> = Inr (?m0, ?w1)"
    and new1: "NewMinhash example_hash 2 ?w1 = Inr (?m1, ?w2)"
    by (simp_all add: NewMinhash_def make_slice_def maxSliceLen_def slice_len_def slots_def
        for_range_def NewMinhash_body_def index_set_def numeral_2_eq_2)
  have sim_before: "Similarity ?m0 ?m1 ?w2 = Inr ((Finite 1, None), ?w2)"
    by (simp add: Similarity_def slice_len_def slots_def for_range_def Similarity_body_def
        index_get_def float64_of_nat_def)
  have sig_same: "Signature ?m0 ?w2 = (0, ?w2)"
    by (simp add: Signature_def)
  have slot_write: "index_set 0 0 7 ?w2 = Inr ?w3"
    by (simp add: index_set_def slice_len_def slots_def)
  have slot_read: "slots ?w3 (fst (Signature ?m0 ?w3)) = [7, - 1]"
    by (simp add: Signature_def slots_def)
  have sim_after: "Similarity ?m0 ?m1 ?w3 = Inr ((Finite (1 / 2), None), ?w3)"
    by (simp add: Similarity_def slice_len_def slots_def for_range_def Similarity_body_def
        index_get_def float64_of_nat_def)
  show ?thesis
    by (intro conjI new0 new1 sim_before sig_same slot_write slot_read sim_after)
qed

text \<open>
  Claim C6, amended. \<^verbatim>\<open>Signature()\<close> changes nothing and returns the engine's own slice,
  not a copy: an assignment \<^verbatim>\<open>s[i] = v\<close> through the returned slice \<open>s\<close>, at an index
  within its length, replaces slot \<open>i\<close> of the engine's signature by \<open>v\<close>, which is what
  \<^verbatim>\<open>Signature\<close> (and with it \<^verbatim>\<open>Push\<close>, \<^verbatim>\<open>Merge\<close> and \<^verbatim>\<open>Similarity\<close>) reads from then
  on. The other slots, the arrays of other engines and the log of hash calls are
  unchanged.
\<close>

theorem Signature_aliases:
  assumes "allocated w m" and "i < length (slots w (sig m))"
  shows "\<exists>s w'. Signature m w = (s, w)
    \<and> s = sig m
    \<and> index_set s i v w = Inr w'
    \<and> slots w' (sig m) = (slots w (sig m))[i := v]
    \<and> Signature m w' = (s, w')
    \<and> (\<forall>c. c \<noteq> sig m \<longrightarrow> slots w' c = slots w c)
    \<and> length (heap w') = length (heap w)
    \<and> hashCalls w' = hashCalls w"
proof -
  let ?w' = "w\<lparr>heap := (heap w)[sig m := (slots w (sig m))[i := v]]\<rparr>"
  from assms(1) have m: "sig m < length (heap w)"
    by (simp add: allocated_def)
  have set: "index_set (sig m) i v w = Inr ?w'"
    using assms(2) by (simp add: index_set_def slice_len_def)
  have new: "slots ?w' (sig m) = (slots w (sig m))[i := v]"
    using m by (simp add: slots_def)
  have other: "\<forall>c. c \<noteq> sig m \<longrightarrow> slots ?w' c = slots w c"
    by (simp add: slots_def)
  have s: "Signature m w = (sig m, w)" and s': "Signature m ?w' = (sig m, ?w')"
    by (simp_all add: Signature_def)
  have len: "length (heap ?w') = length (heap w)" and calls: "hashCalls ?w' = hashCalls w"
    by simp_all
  show ?thesis
    by (rule exI [of _ "sig m"], rule exI [of _ ?w'])
      (intro conjI s refl set new s' other len calls)
qed

text \<open>An instance: slot 1 of \<open>[5, 2, 9]\<close> overwritten with 0 by the caller.\<close>

theorem Signature_aliases_witness:
  "allocated \<lparr>heap = [[5, 2, 9]], hashCalls = []\<rparr> \<lparr>sig = 0, hashFunc = example_hash\<rparr>
   \<and> 1 < length (slots \<lparr>heap = [[5, 2, 9]], hashCalls = []\<rparr> 0)
   \<and> Signature \<lparr>sig = 0, hashFunc = example_hash\<rparr> \<lparr>heap = [[5, 2, 9]], hashCalls = []\<rparr>
       = (0, \<lparr>heap = [[5, 2, 9]], hashCalls = []\<rparr>)
   \<and> (\<exists>w'. index_set 0 1 0 \<lparr>heap = [[5, 2, 9]], hashCalls = []\<rparr> = Inr w'
         \<and> slots w' 0 = [5, 0, 9])"
proof -
  let ?w = "\<lparr>heap = [[5, 2, 9 :: u64]], hashCalls = []\<rparr>"
  let ?m = "\<lparr>sig = 0, hashFunc = example_hash\<rparr>"
  have a: "allocated ?w ?m"
    by (simp add: allocated_def)
  have i: "1 < length (slots ?w (sig ?m))"
    by (simp add: slots_def)
  from Signature_aliases [OF a i, of 0]
  have c: "Signature ?m ?w = (0, ?w)
      \<and> (\<exists>w'. index_set 0 1 0 ?w = Inr w' \<and> slots w' 0 = [5, 0, 9])"
    by (auto simp: slots_def)
  from a i c show ?thesis by simp
qed

subsection \<open>C7: the order of the pushes\<close>

text \<open>
  Claim C7. Two engines are constructed with the same hash function and the same size
  (a size \<^verbatim>\<open>make\<close> accepts, from 0 to \<open>maxSliceLen\<close>: otherwise no engine is built);
  the elements of a list are pushed onto the first and the elements of any permutation
  of the list onto the second. No step panics, and in the final store the two signatures
  are equal, slot for slot.
\<close>

theorem Push_order_independent:
  assumes "0 \<le> n" and "n \<le> maxSliceLen" and "mset xs = mset ys"
  shows "\<exists>m1 w1 m2 w2 w3 w4.
      NewMinhash hf n w = Inr (m1, w1)
    \<and> NewMinhash hf n w1 = Inr (m2, w2)
    \<and> PushAll m1 xs w2 = Inr w3
    \<and> PushAll m2 ys w3 = Inr w4
    \<and> length (slots w4 (sig m1)) = nat n
    \<and> slots w4 (sig m1) = slots w4 (sig m2)"
proof -
  let ?fresh = "replicate (nat n) (- 1 :: u64)"
  let ?step = "\<lambda>b zs. map (\<lambda>i. min (zs ! i) (fst (hf b) + of_nat i * snd (hf b)))
      [0..<length zs]"
  let ?a1 = "length (heap w)" and ?a2 = "Suc (length (heap w))"
  let ?m1 = "\<lparr>sig = ?a1, hashFunc = hf\<rparr>" and ?m2 = "\<lparr>sig = ?a2, hashFunc = hf\<rparr>"
  let ?w1 = "w\<lparr>heap := heap w @ [?fresh]\<rparr>"
  let ?w2 = "w\<lparr>heap := heap w @ [?fresh, ?fresh]\<rparr>"
  let ?w3 = "w\<lparr>heap := heap w @ [fold ?step xs ?fresh, ?fresh], hashCalls := hashCalls w @ xs\<rparr>"
  let ?w4 = "w\<lparr>heap := heap w @ [fold ?step xs ?fresh, fold ?step ys ?fresh],
      hashCalls := hashCalls w @ xs @ ys\<rparr>"
  have c1: "NewMinhash hf n w = Inr (?m1, ?w1)"
    using assms(1,2) by (rule NewMinhash_eq)
  have c2: "NewMinhash hf n ?w1 = Inr (?m2, ?w2)"
    using NewMinhash_eq [OF assms(1,2), of hf ?w1] by simp
  have p1: "PushAll ?m1 xs ?w2 = Inr ?w3"
    using PushAll_eq [of ?w2 ?m1 xs]
    by (simp add: allocated_def slots_def nth_append list_update_append)
  have p2: "PushAll ?m2 ys ?w3 = Inr ?w4"
    using PushAll_eq [of ?w3 ?m2 ys]
    by (simp add: allocated_def slots_def nth_append list_update_append)
  have s1: "slots ?w4 (sig ?m1) = fold ?step xs ?fresh"
    and s2: "slots ?w4 (sig ?m2) = fold ?step ys ?fresh"
    by (simp_all add: slots_def nth_append)
  have same: "fold ?step xs ?fresh = fold ?step ys ?fresh"
    using assms(3) by (rule fold_slots_permuted)
  have len: "length (slots ?w4 (sig ?m1)) = nat n"
    unfolding s1 by (simp add: fold_slots_length)
  have eq: "slots ?w4 (sig ?m1) = slots ?w4 (sig ?m2)"
    unfolding s1 s2 by (rule same)
  show ?thesis
    by (rule exI [of _ ?m1], rule exI [of _ ?w1], rule exI [of _ ?m2], rule exI [of _ ?w2],
        rule exI [of _ ?w3], rule exI [of _ ?w4])
      (intro conjI c1 c2 p1 p2 len eq)
qed

text \<open>
  An instance: three elements and a permutation of them, pushed onto two engines of
  size 2.
\<close>

theorem Push_order_independent_witness:
  "(0::int) \<le> 2 \<and> 2 \<le> maxSliceLen
   \<and> mset [[1 :: byte, 2, 3], [1, 2], [4, 5]] = mset [[4, 5], [1, 2, 3], [1, 2]]
   \<and> PushAll \<lparr>sig = 0, hashFunc = example_hash\<rparr> [[1, 2, 3], [1, 2], [4, 5]]
        \<lparr>heap = [[- 1, - 1], [- 1, - 1]], hashCalls = []\<rparr>
      = Inr \<lparr>heap = [[2, 5], [- 1, - 1]], hashCalls = [[1, 2, 3], [1, 2], [4, 5]]\<rparr>
   \<and> PushAll \<lparr>sig = 1, hashFunc = example_hash\<rparr> [[4, 5], [1, 2, 3], [1, 2]]
        \<lparr>heap = [[2, 5], [- 1, - 1]], hashCalls = [[1, 2, 3], [1, 2], [4, 5]]\<rparr>
      = Inr \<lparr>heap = [[2, 5], [2, 5]], hashCalls = [[1, 2, 3], [1, 2], [4, 5], [4, 5], [1, 2, 3], [1, 2]]\<rparr>
   \<and> (\<exists>m1 w1 m2 w2 w3 w4.
        NewMinhash example_hash 2 \<lparr>heap = [], hashCalls = []\<rparr> = Inr (m1, w1)
      \<and> NewMinhash example_hash 2 w1 = Inr (m2, w2)
      \<and> PushAll m1 [[1, 2, 3], [1, 2], [4, 5]] w2 = Inr w3
      \<and> PushAll m2 [[4, 5], [1, 2, 3], [1, 2]] w3 = Inr w4
      \<and> slots w4 (sig m1) = slots w4 (sig m2))"
proof -
  have n: "(0::int) \<le> 2" by simp
  have l: "2 \<le> maxSliceLen" by (simp add: maxSliceLen_def)
  have p: "mset [[1 :: byte, 2, 3], [1, 2], [4, 5]] = mset [[4, 5], [1, 2, 3], [1, 2]]"
    by (simp add: add.commute)
  have e1: "PushAll \<lparr>sig = 0, hashFunc = example_hash\<rparr> [[1, 2, 3], [1, 2], [4, 5]]
        \<lparr>heap = [[- 1, - 1], [- 1, - 1]], hashCalls = []\<rparr>
      = Inr \<lparr>heap = [[2, 5], [- 1, - 1]], hashCalls = [[1, 2, 3], [1, 2], [4, 5]]\<rparr>"
    by (simp add: Push_def call_hashFunc_def example_hash_def for_range_def slice_len_def
        slots_def Push_body_def index_set_def Let_def)
  have e2: "PushAll \<lparr>sig = 1, hashFunc = example_hash\<rparr> [[4, 5], [1, 2, 3], [1, 2]]
        \<lparr>heap = [[2, 5], [- 1, - 1]], hashCalls = [[1, 2, 3], [1, 2], [4, 5]]\<rparr>
      = Inr \<lparr>heap = [[2, 5], [2, 5]], hashCalls = [[1, 2, 3], [1, 2], [4, 5], [4, 5], [1, 2, 3], [1, 2]]\<rparr>"
    by (simp add: Push_def call_hashFunc_def example_hash_def for_range_def slice_len_def
        slots_def Push_body_def index_set_def Let_def)
  from Push_order_independent [OF n l p, of example_hash "\<lparr>heap = [], hashCalls = []\<rparr>"]
  have c: "\<exists>m1 w1 m2 w2 w3 w4.
        NewMinhash example_hash 2 \<lparr>heap = [], hashCalls = []\<rparr> = Inr (m1, w1)
      \<and> NewMinhash example_hash 2 w1 = Inr (m2, w2)
      \<and> PushAll m1 [[1, 2, 3], [1, 2], [4, 5]] w2 = Inr w3
      \<and> PushAll m2 [[4, 5], [1, 2, 3], [1, 2]] w3 = Inr w4
      \<and> slots w4 (sig m1) = slots w4 (sig m2)"
    by blast
  show ?thesis
    by (intro conjI n l p e1 e2 c)
qed

subsection \<open>C8: a duplicate push\<close>

text \<open>
  Claim C8. For every allocated engine, in every state, and every element \<open>b\<close>:
  \<^verbatim>\<open>Push(b)\<close> called again immediately after \<^verbatim>\<open>Push(b)\<close> returns without a panic and
  leaves every array of the store, hence the signature, as the first call left it.
\<close>

theorem Push_twice:
  assumes "allocated w m"
  shows "\<exists>w1 w2. Push m b w = Inr w1 \<and> Push m b w1 = Inr w2
    \<and> heap w2 = heap w1
    \<and> slots w2 (sig m) = slots w1 (sig m)"
proof -
  let ?h = "\<lambda>i. fst (hashFunc m b) + of_nat i * snd (hashFunc m b)"
  let ?zs = "map (\<lambda>i. min (slots w (sig m) ! i) (?h i)) [0..<length (slots w (sig m))]"
  let ?w1 = "w\<lparr>heap := (heap w)[sig m := ?zs], hashCalls := hashCalls w @ [b]\<rparr>"
  let ?w2 = "?w1\<lparr>heap := (heap ?w1)[sig m :=
      map (\<lambda>i. min (slots ?w1 (sig m) ! i) (?h i)) [0..<length (slots ?w1 (sig m))]],
      hashCalls := hashCalls ?w1 @ [b]\<rparr>"
  from assms have m: "sig m < length (heap w)"
    by (simp add: allocated_def)
  have p1: "Push m b w = Inr ?w1"
    using assms by (rule Push_eq)
  have a1: "allocated ?w1 m"
    using m by (simp add: allocated_def)
  have p2: "Push m b ?w1 = Inr ?w2"
    using a1 by (rule Push_eq)
  have s1: "slots ?w1 (sig m) = ?zs"
    using m by (simp add: slots_def)
  have again: "map (\<lambda>i. min (?zs ! i) (?h i)) [0..<length ?zs] = ?zs"
    by (rule nth_equalityI) simp_all
  have h: "heap ?w2 = heap ?w1"
    unfolding s1 again by simp
  then have s: "slots ?w2 (sig m) = slots ?w1 (sig m)"
    by (simp only: slots_def)
  from p1 p2 h s show ?thesis by blast
qed

text \<open>An instance: the element of the instance of C1, pushed twice.\<close>

theorem Push_twice_witness:
  "allocated \<lparr>heap = [[5, 2, - 1]], hashCalls = []\<rparr> \<lparr>sig = 0, hashFunc = example_hash\<rparr>
   \<and> Push \<lparr>sig = 0, hashFunc = example_hash\<rparr> [7] \<lparr>heap = [[5, 2, - 1]], hashCalls = []\<rparr>
       = Inr \<lparr>heap = [[1, 2, 7]], hashCalls = [[7]]\<rparr>
   \<and> Push \<lparr>sig = 0, hashFunc = example_hash\<rparr> [7] \<lparr>heap = [[1, 2, 7]], hashCalls = [[7]]\<rparr>
       = Inr \<lparr>heap = [[1, 2, 7]], hashCalls = [[7], [7]]\<rparr>"
proof -
  let ?w = "\<lparr>heap = [[5, 2, - 1 :: u64]], hashCalls = []\<rparr>"
  let ?m = "\<lparr>sig = 0, hashFunc = example_hash\<rparr>"
  have a: "allocated ?w ?m"
    by (simp add: allocated_def)
  have e1: "Push ?m [7] ?w = Inr \<lparr>heap = [[1, 2, 7]], hashCalls = [[7]]\<rparr>"
    by (simp add: Push_def call_hashFunc_def example_hash_def for_range_def slice_len_def
        slots_def Push_body_def index_set_def)
  have e2: "Push ?m [7] \<lparr>heap = [[1, 2, 7]], hashCalls = [[7]]\<rparr>
      = Inr \<lparr>heap = [[1, 2, 7]], hashCalls = [[7], [7]]\<rparr>"
    by (simp add: Push_def call_hashFunc_def example_hash_def for_range_def slice_len_def
        slots_def Push_body_def index_set_def)
  from Push_twice [OF a, of "[7]"]
  have c: "\<exists>w1 w2. Push ?m [7] ?w = Inr w1 \<and> Push ?m [7] w1 = Inr w2 \<and> heap w2 = heap w1"
    by blast
  from c a e1 e2 show ?thesis by simp
qed

subsection \<open>C9: the batch operations\<close>

text \<open>
  Claim C9. For every engine and every list of elements, \<^verbatim>\<open>PushAll\<close> has the result of
  the sequence of single pushes in the same order, and \<^verbatim>\<open>PushStrings\<close> that of the
  sequence of pushes of the strings' bytes: the same store, hence the same signature bit
  for bit, and the same calls of the hash function. On an allocated engine both return
  without a panic.
\<close>

theorem PushAll_PushStrings_sequential:
  "PushAll m bb w = push_sequentially m bb w
   \<and> PushStrings m ss w = push_sequentially m (map bytes_of_string ss) w
   \<and> (allocated w m \<longrightarrow>
        (\<exists>w'. PushAll m bb w = Inr w') \<and> (\<exists>w'. PushStrings m ss w = Inr w'))"
proof -
  have "\<exists>w'. PushAll m bs w = Inr w'" if "allocated w m" for bs
    using that by (simp add: PushAll_eq)
  then show ?thesis
    by (simp add: push_sequentially_def PushAll_fold PushStrings_PushAll)
qed

text \<open>
  An instance: the strings \<^verbatim>\<open>it\<close> and \<^verbatim>\<open>was\<close> of the test's first sentence, pushed onto
  the signature \<open>[9, 9]\<close>.
\<close>

theorem PushAll_PushStrings_sequential_witness:
  "allocated \<lparr>heap = [[9, 9]], hashCalls = []\<rparr> \<lparr>sig = 0, hashFunc = example_hash\<rparr>
   \<and> bytes_of_string ''it'' = [105, 116]
   \<and> PushStrings \<lparr>sig = 0, hashFunc = example_hash\<rparr> [''it'', ''was'']
        \<lparr>heap = [[9, 9]], hashCalls = []\<rparr>
      = Inr \<lparr>heap = [[2, 5]], hashCalls = [[105, 116], [119, 97, 115]]\<rparr>
   \<and> push_sequentially \<lparr>sig = 0, hashFunc = example_hash\<rparr> [[105, 116], [119, 97, 115]]
        \<lparr>heap = [[9, 9]], hashCalls = []\<rparr>
      = Inr \<lparr>heap = [[2, 5]], hashCalls = [[105, 116], [119, 97, 115]]\<rparr>
   \<and> PushAll \<lparr>sig = 0, hashFunc = example_hash\<rparr> [[105, 116], [119, 97, 115]]
        \<lparr>heap = [[9, 9]], hashCalls = []\<rparr>
      = Inr \<lparr>heap = [[2, 5]], hashCalls = [[105, 116], [119, 97, 115]]\<rparr>"
proof -
  let ?w = "\<lparr>heap = [[9 :: u64, 9]], hashCalls = []\<rparr>"
  let ?m = "\<lparr>sig = 0, hashFunc = example_hash\<rparr>"
  let ?r = "Inr \<lparr>heap = [[2 :: u64, 5]], hashCalls = [[105 :: byte, 116], [119, 97, 115]]\<rparr>
    :: error + world"
  have a: "allocated ?w ?m"
    by (simp add: allocated_def)
  have b: "bytes_of_string ''it'' = [105, 116]"
    and b': "map bytes_of_string [''it'', ''was''] = [[105, 116], [119, 97, 115]]"
    by (simp_all add: bytes_of_string_def)
  have e: "PushAll ?m [[105, 116], [119, 97, 115]] ?w = ?r"
    by (simp add: Push_def call_hashFunc_def example_hash_def for_range_def slice_len_def
        slots_def Push_body_def index_set_def Let_def)
  from PushAll_PushStrings_sequential [of ?m "[[105, 116], [119, 97, 115]]" ?w "[''it'', ''was'']"]
  have s: "push_sequentially ?m [[105, 116], [119, 97, 115]] ?w = ?r"
    and t: "PushStrings ?m [''it'', ''was''] ?w = ?r"
    unfolding b' e by simp_all
  show ?thesis
    by (intro conjI a b t s e)
qed

subsection \<open>Further properties\<close>

text \<open>
  Order independence does not need fresh engines. For two allocated engines, in the same
  store or in two stores, that are bound to the same hash function and hold equal
  signatures: pushing a list onto one and a permutation of it onto the other returns
  without a panic and leaves them with equal signatures.
\<close>

theorem PushAll_permuted:
  assumes "allocated wa m1" and "allocated wb m2"
    and "hashFunc m1 = hashFunc m2"
    and "slots wa (sig m1) = slots wb (sig m2)"
    and "mset xs = mset ys"
  shows "\<exists>wa' wb'. PushAll m1 xs wa = Inr wa' \<and> PushAll m2 ys wb = Inr wb'
    \<and> slots wa' (sig m1) = slots wb' (sig m2)"
proof -
  let ?step = "\<lambda>b zs. map (\<lambda>i. min (zs ! i)
      (fst (hashFunc m2 b) + of_nat i * snd (hashFunc m2 b))) [0..<length zs]"
  let ?wa' = "wa\<lparr>heap := (heap wa)[sig m1 := fold ?step xs (slots wb (sig m2))],
      hashCalls := hashCalls wa @ xs\<rparr>"
  let ?wb' = "wb\<lparr>heap := (heap wb)[sig m2 := fold ?step ys (slots wb (sig m2))],
      hashCalls := hashCalls wb @ ys\<rparr>"
  have pa: "PushAll m1 xs wa = Inr ?wa'"
    using PushAll_eq [OF assms(1), of xs] by (simp only: assms(3) assms(4))
  have pb: "PushAll m2 ys wb = Inr ?wb'"
    using assms(2) by (rule PushAll_eq)
  have "slots ?wa' (sig m1) = fold ?step xs (slots wb (sig m2))"
    using assms(1) by (simp add: slots_def allocated_def)
  moreover have "slots ?wb' (sig m2) = fold ?step ys (slots wb (sig m2))"
    using assms(2) by (simp add: slots_def allocated_def)
  moreover have "fold ?step xs (slots wb (sig m2)) = fold ?step ys (slots wb (sig m2))"
    using assms(5) by (rule fold_slots_permuted)
  ultimately have "slots ?wa' (sig m1) = slots ?wb' (sig m2)"
    by simp
  with pa pb show ?thesis by blast
qed

text \<open>An instance: two engines that both hold \<open>[4, 9]\<close>, in two stores.\<close>

theorem PushAll_permuted_witness:
  "allocated \<lparr>heap = [[4, 9]], hashCalls = []\<rparr> \<lparr>sig = 0, hashFunc = example_hash\<rparr>
   \<and> allocated \<lparr>heap = [[7], [4, 9]], hashCalls = []\<rparr> \<lparr>sig = 1, hashFunc = example_hash\<rparr>
   \<and> slots \<lparr>heap = [[4, 9]], hashCalls = []\<rparr> 0
       = slots \<lparr>heap = [[7], [4, 9]], hashCalls = []\<rparr> 1
   \<and> mset [[1 :: byte, 2, 3], [1, 2]] = mset [[1, 2], [1, 2, 3]]
   \<and> PushAll \<lparr>sig = 0, hashFunc = example_hash\<rparr> [[1, 2, 3], [1, 2]]
        \<lparr>heap = [[4, 9]], hashCalls = []\<rparr>
      = Inr \<lparr>heap = [[2, 5]], hashCalls = [[1, 2, 3], [1, 2]]\<rparr>
   \<and> PushAll \<lparr>sig = 1, hashFunc = example_hash\<rparr> [[1, 2], [1, 2, 3]]
        \<lparr>heap = [[7], [4, 9]], hashCalls = []\<rparr>
      = Inr \<lparr>heap = [[7], [2, 5]], hashCalls = [[1, 2], [1, 2, 3]]\<rparr>"
proof -
  let ?wa = "\<lparr>heap = [[4 :: u64, 9]], hashCalls = []\<rparr>"
  let ?wb = "\<lparr>heap = [[7 :: u64], [4, 9]], hashCalls = []\<rparr>"
  let ?m1 = "\<lparr>sig = 0, hashFunc = example_hash\<rparr>"
  let ?m2 = "\<lparr>sig = 1, hashFunc = example_hash\<rparr>"
  have a: "allocated ?wa ?m1" and b: "allocated ?wb ?m2"
    by (simp_all add: allocated_def)
  have h: "hashFunc ?m1 = hashFunc ?m2"
    by simp
  have s: "slots ?wa (sig ?m1) = slots ?wb (sig ?m2)"
    by (simp add: slots_def)
  have p: "mset [[1 :: byte, 2, 3], [1, 2]] = mset [[1, 2], [1, 2, 3]]"
    by (simp add: add.commute)
  have e1: "PushAll ?m1 [[1, 2, 3], [1, 2]] ?wa
      = Inr \<lparr>heap = [[2, 5]], hashCalls = [[1, 2, 3], [1, 2]]\<rparr>"
    by (simp add: Push_def call_hashFunc_def example_hash_def for_range_def slice_len_def
        slots_def Push_body_def index_set_def Let_def)
  have e2: "PushAll ?m2 [[1, 2], [1, 2, 3]] ?wb
      = Inr \<lparr>heap = [[7], [2, 5]], hashCalls = [[1, 2], [1, 2, 3]]\<rparr>"
    by (simp add: Push_def call_hashFunc_def example_hash_def for_range_def slice_len_def
        slots_def Push_body_def index_set_def Let_def)
  from PushAll_permuted [OF a b h s p]
  have c: "\<exists>wa' wb'. PushAll ?m1 [[1, 2, 3], [1, 2]] ?wa = Inr wa'
      \<and> PushAll ?m2 [[1, 2], [1, 2, 3]] ?wb = Inr wb'"
    by blast
  from c a b s p e1 e2 show ?thesis by simp
qed

text \<open>
  \<^verbatim>\<open>NewMinhashFromSigs\<close> copies. For a slice of the store (of a length within the
  limit of \<^verbatim>\<open>make\<close>, as every slice that exists is), the new engine's signature is
  a new array with the slice's values, at an address of its own: the arrays the store
  held are unchanged, a later assignment through the caller's slice does not reach the
  engine, and a later \<^verbatim>\<open>Push\<close> on the engine does not reach the caller's slice.
\<close>

theorem NewMinhashFromSigs_copies:
  assumes "e < length (heap w)" and "int (length (slots w e)) \<le> maxSliceLen"
  shows "\<exists>m' w'. NewMinhashFromSigs hf e w = Inr (m', w')
    \<and> hashFunc m' = hf
    \<and> allocated w' m'
    \<and> sig m' \<noteq> e
    \<and> slots w' (sig m') = slots w e
    \<and> (\<forall>c < length (heap w). slots w' c = slots w c)
    \<and> (\<forall>i v w''. index_set e i v w' = Inr w'' \<longrightarrow> slots w'' (sig m') = slots w' (sig m'))
    \<and> (\<forall>b w''. Push m' b w' = Inr w'' \<longrightarrow> slots w'' e = slots w' e)"
proof -
  let ?m' = "\<lparr>sig = length (heap w), hashFunc = hf\<rparr>"
  let ?w' = "w\<lparr>heap := heap w @ [slots w e]\<rparr>"
  have c: "NewMinhashFromSigs hf e w = Inr (?m', ?w')"
    using assms by (rule NewMinhashFromSigs_eq)
  have hf: "hashFunc ?m' = hf"
    by simp
  have a: "allocated ?w' ?m'"
    by (simp add: allocated_def)
  have neq: "sig ?m' \<noteq> e"
    using assms(1) by simp
  have s: "slots ?w' (sig ?m') = slots w e"
    by (simp add: slots_def)
  have frame: "\<forall>c < length (heap w). slots ?w' c = slots w c"
    by (simp add: slots_def nth_append)
  have wr: "\<forall>i v w''. index_set e i v ?w' = Inr w'' \<longrightarrow> slots w'' (sig ?m') = slots ?w' (sig ?m')"
    using assms(1) by (auto simp: index_set_def slots_def split: if_splits)
  have ps: "\<forall>b w''. Push ?m' b ?w' = Inr w'' \<longrightarrow> slots w'' e = slots ?w' e"
  proof (intro allI impI)
    fix b w''
    assume "Push ?m' b ?w' = Inr w''"
    then have "heap w'' = (heap ?w')[sig ?m' :=
        map (\<lambda>i. min (slots ?w' (sig ?m') ! i)
               (fst (hashFunc ?m' b) + of_nat i * snd (hashFunc ?m' b)))
          [0..<length (slots ?w' (sig ?m'))]]"
      unfolding Push_eq [OF a] by auto
    then have "heap w'' ! e = heap ?w' ! e"
      using assms(1) by (simp add: nth_append)
    then show "slots w'' e = slots ?w' e"
      by (simp only: slots_def)
  qed
  show ?thesis
    by (rule exI [of _ ?m'], rule exI [of _ ?w'])
      (intro conjI c hf a neq s frame wr ps)
qed

text \<open>An instance: an engine made from the slice \<open>[5, 2]\<close>.\<close>

theorem NewMinhashFromSigs_copies_witness:
  "(0::nat) < length (heap \<lparr>heap = [[5, 2]], hashCalls = []\<rparr>)
   \<and> int (length (slots \<lparr>heap = [[5, 2]], hashCalls = []\<rparr> 0)) \<le> maxSliceLen
   \<and> NewMinhashFromSigs example_hash 0 \<lparr>heap = [[5, 2]], hashCalls = []\<rparr>
      = Inr (\<lparr>sig = 1, hashFunc = example_hash\<rparr>, \<lparr>heap = [[5, 2], [5, 2]], hashCalls = []\<rparr>)
   \<and> index_set 0 0 9 \<lparr>heap = [[5, 2], [5, 2]], hashCalls = []\<rparr>
      = Inr \<lparr>heap = [[9, 2], [5, 2]], hashCalls = []\<rparr>
   \<and> Push \<lparr>sig = 1, hashFunc = example_hash\<rparr> [7, 7] \<lparr>heap = [[5, 2], [5, 2]], hashCalls = []\<rparr>
      = Inr \<lparr>heap = [[5, 2], [2, 2]], hashCalls = [[7, 7]]\<rparr>"
proof -
  let ?w = "\<lparr>heap = [[5 :: u64, 2]], hashCalls = []\<rparr>"
  have l: "(0::nat) < length (heap ?w)"
    by simp
  have k: "int (length (slots ?w 0)) \<le> maxSliceLen"
    by (simp add: slots_def maxSliceLen_def)
  have c: "NewMinhashFromSigs example_hash 0 ?w
      = Inr (\<lparr>sig = 1, hashFunc = example_hash\<rparr>, \<lparr>heap = [[5, 2], [5, 2]], hashCalls = []\<rparr>)"
    by (simp add: NewMinhashFromSigs_def make_slice_def maxSliceLen_def copy_slice_def
        slice_len_def slots_def)
  have wr: "index_set 0 0 9 \<lparr>heap = [[5, 2], [5, 2]], hashCalls = []\<rparr>
      = Inr \<lparr>heap = [[9, 2], [5, 2]], hashCalls = []\<rparr>"
    by (simp add: index_set_def slice_len_def slots_def)
  have ps: "Push \<lparr>sig = 1, hashFunc = example_hash\<rparr> [7, 7]
        \<lparr>heap = [[5, 2], [5, 2]], hashCalls = []\<rparr>
      = Inr \<lparr>heap = [[5, 2], [2, 2]], hashCalls = [[7, 7]]\<rparr>"
    by (simp add: Push_def call_hashFunc_def example_hash_def for_range_def slice_len_def
        slots_def Push_body_def index_set_def Let_def)
  from NewMinhashFromSigs_copies [OF l k, of example_hash]
  have ex: "\<exists>m' w'. NewMinhashFromSigs example_hash 0 ?w = Inr (m', w') \<and> sig m' \<noteq> 0"
    by blast
  from ex l k c wr ps show ?thesis by simp
qed

end
